theory Spec2Isabelle
  imports Complex_Main "HOL-Library.AList" "HOL-Library.Char_ord" "HOL-Library.List_Lexorder"
begin

section \<open>Data model\<close>

text \<open>
  Nodes are the strings of the \<open>rutas\<close> table, weights its \<open>REAL\<close> column.  A Python
  \<open>dict\<close> is an association list in insertion order: \<open>map_of\<close> is the lookup,
  \<open>AList.update\<close> the assignment \<open>d[k] = v\<close> (in place for a known key, appended for a
  new one).  \<open>float('inf')\<close> is the constructor \<open>Infinito\<close>.  Weights and finite
  distances are real numbers, as the data model states them: the rounding of floating
  point sums is not part of the model.  Strings are compared character by character, as
  Python compares them.
\<close>

type_synonym nodo = string
type_synonym ruta = "nodo \<times> nodo \<times> real"
type_synonym adyacencia = "(nodo \<times> real) list"
type_synonym grafo = "(nodo \<times> adyacencia) list"

datatype valor_dist = Finita real | Infinito

datatype error = KeyError nodo

type_synonym dist_map = "(nodo \<times> valor_dist) list"
type_synonym prev_map = "(nodo \<times> nodo option) list"
type_synonym cola = "(real \<times> nodo) list"
type_synonym estado = "dist_map \<times> prev_map \<times> cola"

type_synonym envio = "int \<times> nodo \<times> nodo"

text \<open>
  The three f-strings of \<open>procesar_envios\<close>, kept as the template used and the values
  formatted into it.
\<close>

datatype mensaje =
    MsgOrigenDesconocido int nodo nodo
  | MsgNoEncontrada int nodo nodo
  | MsgRuta int nodo nodo valor_dist "nodo list"

record resultado =
  r_id :: int
  r_origen :: nodo
  r_destino :: nodo
  r_distancia :: "valor_dist option"
  r_camino :: "nodo list option"
  r_msg :: mensaje

section \<open>construir_grafo\<close>

definition setdefault :: "'k \<Rightarrow> 'v \<Rightarrow> ('k \<times> 'v) list \<Rightarrow> ('k \<times> 'v) list" where
  "setdefault k v al = (case map_of al k of None \<Rightarrow> al @ [(k, v)] | Some _ \<Rightarrow> al)"

text \<open>
  One pass of the first loop: \<open>nodos.add(origen)\<close>, \<open>nodos.add(destino)\<close> and
  \<open>grafo.setdefault(origen, {})[destino] = distancia\<close>.  The set \<open>nodos\<close> is a list
  without repetitions; Python leaves the iteration order of a set open, and the second
  loop only appends the keys that are still missing, so the order decides nothing but
  the position of those keys.
\<close>

definition agregar_ruta :: "ruta \<Rightarrow> grafo \<times> nodo list \<Rightarrow> grafo \<times> nodo list" where
  "agregar_ruta r s =
     (case r of (origen, destino, distancia) \<Rightarrow>
      case s of (grafo, nodos) \<Rightarrow>
        (let ady = (case map_of grafo origen of None \<Rightarrow> [] | Some a \<Rightarrow> a)
         in (AList.update origen (AList.update destino distancia ady) grafo,
             List.insert destino (List.insert origen nodos))))"

text \<open>The networkx graph \<open>G\<close> returned beside the dictionary only feeds the drawing.\<close>

definition construir_grafo :: "ruta list \<Rightarrow> grafo" where
  "construir_grafo rutas =
     (case fold agregar_ruta rutas ([], []) of (grafo, nodos) \<Rightarrow>
        fold (\<lambda>n g. setdefault n [] g) nodos grafo)"

section \<open>Dijkstra\<close>

text \<open>\<open>d_u > dist[u]\<close> and \<open>alt < dist[v]\<close>, a finite number against a float.\<close>

fun excede :: "real \<Rightarrow> valor_dist \<Rightarrow> bool" where
  "excede d (Finita x) = (x < d)"
| "excede d Infinito = False"

fun mejora :: "real \<Rightarrow> valor_dist \<Rightarrow> bool" where
  "mejora a (Finita x) = (a < x)"
| "mejora a Infinito = True"

text \<open>
  \<open>heapq\<close>: the queue is the list of pending tuples.  \<open>heappush\<close> adds one,
  \<open>heappop\<close> takes out the least one in Python's tuple order (distance first, then
  the node).  Two tuples that compare equal are the same tuple, so the array layout of
  the binary heap is not observable.
\<close>

fun tupla_menor :: "real \<times> nodo \<Rightarrow> real \<times> nodo \<Rightarrow> bool" where
  "tupla_menor (d1, u1) (d2, u2) = (d1 < d2 \<or> (d1 = d2 \<and> u1 < u2))"

fun minimo :: "real \<times> nodo \<Rightarrow> cola \<Rightarrow> real \<times> nodo" where
  "minimo m [] = m"
| "minimo m (x # xs) = minimo (if tupla_menor x m then x else m) xs"

definition heappush :: "cola \<Rightarrow> real \<times> nodo \<Rightarrow> cola" where
  "heappush heap x = heap @ [x]"

fun heappop :: "cola \<Rightarrow> ((real \<times> nodo) \<times> cola) option" where
  "heappop [] = None"
| "heappop (x # xs) = (let m = minimo x xs in Some (m, remove1 m (x # xs)))"

text \<open>The \<open>for v, peso in grafo[u].items()\<close> loop; \<open>dist[v]\<close> raises on a missing key.\<close>

fun relajar :: "nodo \<Rightarrow> real \<Rightarrow> adyacencia \<Rightarrow> estado \<Rightarrow> error + estado" where
  "relajar u d_u [] s = Inr s"
| "relajar u d_u ((v, peso) # resto) (dists, prevs, heap) =
     (let alt = d_u + peso in
      case map_of dists v of
        None \<Rightarrow> Inl (KeyError v)
      | Some dv \<Rightarrow>
          if mejora alt dv
          then relajar u d_u resto
                 (AList.update v (Finita alt) dists, AList.update v (Some u) prevs,
                  heappush heap (alt, v))
          else relajar u d_u resto (dists, prevs, heap))"

text \<open>The body of the \<open>while\<close> loop after the pop.\<close>

definition cuerpo :: "grafo \<Rightarrow> real \<times> nodo \<Rightarrow> estado \<Rightarrow> error + estado" where
  "cuerpo g t s =
     (case t of (d_u, u) \<Rightarrow>
      case s of (dists, prevs, heap) \<Rightarrow>
        (case map_of dists u of
           None \<Rightarrow> Inl (KeyError u)
         | Some du \<Rightarrow>
             if excede d_u du then Inr (dists, prevs, heap)
             else (case map_of g u of
                     None \<Rightarrow> Inl (KeyError u)
                   | Some ady \<Rightarrow> relajar u d_u ady (dists, prevs, heap))))"

partial_function (option) bucle :: "grafo \<Rightarrow> estado \<Rightarrow> (error + dist_map \<times> prev_map) option" where
  "bucle g s =
     (case s of (dists, prevs, heap) \<Rightarrow>
        (case heappop heap of
           None \<Rightarrow> Some (Inr (dists, prevs))
         | Some (t, heap') \<Rightarrow>
             (case cuerpo g t (dists, prevs, heap') of
                Inl e \<Rightarrow> Some (Inl e)
              | Inr s' \<Rightarrow> bucle g s')))"

declare bucle.simps [code]

definition Dijkstra :: "grafo \<Rightarrow> nodo \<Rightarrow> (error + dist_map \<times> prev_map) option" where
  "Dijkstra grafo origen =
     (let dists = map (\<lambda>(n, _). (n, Infinito)) grafo;
          prevs = map (\<lambda>(n, _). (n, None)) grafo
      in if map_of grafo origen = None then Some (Inr (dists, prevs))
         else bucle grafo (AList.update origen (Finita 0) dists, prevs, [(0, origen)]))"

section \<open>reconstruir_camino\<close>

text \<open>
  The \<open>while u is not None\<close> loop: \<open>u\<close> is a node or \<open>None\<close>, \<open>camino.insert(0, u)\<close>
  puts it in front, \<open>prev[u]\<close> raises on a missing key.  A cyclic \<open>prev\<close> keeps the loop
  running, which is the value \<open>None\<close> here.
\<close>

partial_function (option) retroceder ::
  "prev_map \<Rightarrow> nodo \<Rightarrow> nodo option \<Rightarrow> nodo list \<Rightarrow> (error + nodo list) option" where
  "retroceder prevs origen u camino =
     (case u of
        None \<Rightarrow> Some (Inr camino)
      | Some x \<Rightarrow>
          if x = origen then Some (Inr (x # camino))
          else (case map_of prevs x of
                  None \<Rightarrow> Some (Inl (KeyError x))
                | Some p \<Rightarrow> retroceder prevs origen p (x # camino)))"

declare retroceder.simps [code]

definition reconstruir_camino ::
  "prev_map \<Rightarrow> nodo \<Rightarrow> nodo \<Rightarrow> (error + nodo list) option" where
  "reconstruir_camino prevs origen destino =
     (if map_of prevs destino = None then Some (Inr [])
      else (case retroceder prevs origen (Some destino) [] of
              None \<Rightarrow> None
            | Some (Inl e) \<Rightarrow> Some (Inl e)
            | Some (Inr camino) \<Rightarrow>
                (case camino of
                   [] \<Rightarrow> Some (Inr [])
                 | c # _ \<Rightarrow> if c = origen then Some (Inr camino) else Some (Inr []))))"

section \<open>procesar_envios\<close>

text \<open>
  One pass of the \<open>for\<close> loop: the tuple appended to \<open>resultados\<close>.  The printing and
  the drawing (\<open>G\<close> is \<open>None\<close> by default) are left out.
\<close>

definition procesar_envio :: "grafo \<Rightarrow> envio \<Rightarrow> (error + resultado) option" where
  "procesar_envio grafo e =
     (case e of (id_envio, origen, destino) \<Rightarrow>
      case Dijkstra grafo origen of
        None \<Rightarrow> None
      | Some (Inl err) \<Rightarrow> Some (Inl err)
      | Some (Inr (dists, prevs)) \<Rightarrow>
          if map_of grafo origen = None
          then Some (Inr \<lparr>r_id = id_envio, r_origen = origen, r_destino = destino,
                          r_distancia = None, r_camino = None,
                          r_msg = MsgOrigenDesconocido id_envio origen destino\<rparr>)
          else if map_of dists destino = None \<or> map_of dists destino = Some Infinito
          then Some (Inr \<lparr>r_id = id_envio, r_origen = origen, r_destino = destino,
                          r_distancia = None, r_camino = None,
                          r_msg = MsgNoEncontrada id_envio origen destino\<rparr>)
          else (case reconstruir_camino prevs origen destino of
                  None \<Rightarrow> None
                | Some (Inl err) \<Rightarrow> Some (Inl err)
                | Some (Inr camino) \<Rightarrow>
                    Some (Inr \<lparr>r_id = id_envio, r_origen = origen, r_destino = destino,
                               r_distancia = map_of dists destino, r_camino = Some camino,
                               r_msg = MsgRuta id_envio origen destino
                                         (the (map_of dists destino)) camino\<rparr>)))"

fun procesar_desde ::
  "grafo \<Rightarrow> envio list \<Rightarrow> resultado list \<Rightarrow> (error + resultado list) option" where
  "procesar_desde grafo [] resultados = Some (Inr resultados)"
| "procesar_desde grafo (e # envios) resultados =
     (case procesar_envio grafo e of
        None \<Rightarrow> None
      | Some (Inl err) \<Rightarrow> Some (Inl err)
      | Some (Inr r) \<Rightarrow> procesar_desde grafo envios (resultados @ [r]))"

definition procesar_envios :: "grafo \<Rightarrow> envio list \<Rightarrow> (error + resultado list) option" where
  "procesar_envios grafo envios = procesar_desde grafo envios []"

text \<open>
  The result tuple has no status field.  The three outcomes of the specification are
  read off it: a distance is present exactly for a resolved shipment, and the two
  failures differ in the message.
\<close>

datatype estatus = RESOLVED | ORIGIN_UNKNOWN | UNREACHABLE

definition estatus_de :: "resultado \<Rightarrow> estatus" where
  "estatus_de r =
     (case r_distancia r of
        Some _ \<Rightarrow> RESOLVED
      | None \<Rightarrow> (case r_msg r of
                   MsgOrigenDesconocido _ _ _ \<Rightarrow> ORIGIN_UNKNOWN
                 | _ \<Rightarrow> UNREACHABLE))"

section \<open>Notions used by the properties\<close>

text \<open>
  A graph of the data model: the keys of a dictionary are distinct, every neighbour is
  itself a key, and no weight is negative.
\<close>

definition grafo_valido :: "grafo \<Rightarrow> bool" where
  "grafo_valido g \<longleftrightarrow>
     distinct (map fst g) \<and>
     (\<forall>(u, ady) \<in> set g. distinct (map fst ady) \<and>
        (\<forall>(v, w) \<in> set ady. v \<in> fst ` set g \<and> 0 \<le> w))"

definition pesos_no_negativos :: "ruta list \<Rightarrow> bool" where
  "pesos_no_negativos rutas \<longleftrightarrow> (\<forall>(origen, destino, distancia) \<in> set rutas. 0 \<le> distancia)"

text \<open>The weight of the edge from \<open>a\<close> to \<open>b\<close>, that is \<open>grafo[a][b]\<close>, if there is one.\<close>

definition peso_arista :: "grafo \<Rightarrow> nodo \<Rightarrow> nodo \<Rightarrow> real option" where
  "peso_arista g a b = (case map_of g a of None \<Rightarrow> None | Some ady \<Rightarrow> map_of ady b)"

text \<open>The consecutive pairs of a path, as \<open>zip(ruta, ruta[1:])\<close> in \<open>mostrar_grafo\<close>.\<close>

definition aristas_camino :: "nodo list \<Rightarrow> (nodo \<times> nodo) list" where
  "aristas_camino p = zip p (tl p)"

definition peso_camino :: "grafo \<Rightarrow> nodo list \<Rightarrow> real" where
  "peso_camino g p = (\<Sum>(a, b) \<leftarrow> aristas_camino p. the (peso_arista g a b))"

text \<open>Float arithmetic with the sentinel: \<open>inf + w = inf\<close>, and everything is \<open>\<le> inf\<close>.\<close>

fun suma_dist :: "valor_dist \<Rightarrow> real \<Rightarrow> valor_dist" where
  "suma_dist (Finita x) w = Finita (x + w)"
| "suma_dist Infinito w = Infinito"

fun menor_igual :: "valor_dist \<Rightarrow> valor_dist \<Rightarrow> bool" where
  "menor_igual (Finita x) (Finita y) = (x \<le> y)"
| "menor_igual Infinito (Finita y) = False"
| "menor_igual d Infinito = True"

text \<open>
  \<open>cadena prevs src v p\<close>: following the predecessors from \<open>v\<close> reaches \<open>src\<close>, and
  \<open>p\<close> is the list of the nodes met, from \<open>src\<close> to \<open>v\<close>.
\<close>

inductive cadena :: "prev_map \<Rightarrow> nodo \<Rightarrow> nodo \<Rightarrow> nodo list \<Rightarrow> bool"
  for prevs :: prev_map and src :: nodo where
  cadena_origen: "cadena prevs src src [src]"
| cadena_paso: "v \<noteq> src \<Longrightarrow> map_of prevs v = Some (Some u) \<Longrightarrow> cadena prevs src u p \<Longrightarrow>
     cadena prevs src v (p @ [v])"

text \<open>
  The invariant of the \<open>while heap\<close> loop.  \<open>D\<close> is the set of the nodes already taken
  from the queue with their current distance: their distance is final, their edges are
  relaxed, and nothing left in the queue is below it.
\<close>

definition inv_bucle :: "grafo \<Rightarrow> nodo \<Rightarrow> nodo set \<Rightarrow> estado \<Rightarrow> bool" where
  "inv_bucle g src D s \<longleftrightarrow>
     (case s of (dists, prevs, heap) \<Rightarrow>
        map fst dists = map fst g \<and> map fst prevs = map fst g \<and>
        map_of dists src = Some (Finita 0) \<and> map_of prevs src = Some None \<and>
        D \<subseteq> fst ` set g \<and>
        (\<forall>x dx. map_of dists x = Some (Finita dx) \<longrightarrow> 0 \<le> dx) \<and>
        (\<forall>(d, x) \<in> set heap. \<exists>dx. map_of dists x = Some (Finita dx) \<and> dx \<le> d) \<and>
        (\<forall>x dx. map_of dists x = Some (Finita dx) \<longrightarrow> x \<in> D \<or> (dx, x) \<in> set heap) \<and>
        (\<forall>u \<in> D. \<exists>du. map_of dists u = Some (Finita du) \<and>
           (\<forall>(d, x) \<in> set heap. du \<le> d) \<and>
           (\<forall>ady v w. map_of g u = Some ady \<longrightarrow> (v, w) \<in> set ady \<longrightarrow>
              (\<exists>dv. map_of dists v = Some (Finita dv) \<and> dv \<le> du + w)) \<and>
           (\<exists>p. cadena prevs src u p \<and> set p \<subseteq> D)) \<and>
        (\<forall>v dv. map_of dists v = Some (Finita dv) \<longrightarrow> v \<noteq> src \<longrightarrow>
           (\<exists>u du ady w. map_of prevs v = Some (Some u) \<and> u \<in> D \<and>
              map_of g u = Some ady \<and> (v, w) \<in> set ady \<and>
              map_of dists u = Some (Finita du) \<and> dv = du + w)))"

text \<open>
  What the two maps returned for a known source satisfy: the keys are those of the graph,
  the source is at distance 0, no edge out of a reached node can lower a distance, and for
  every reached node \<open>reconstruir_camino\<close> returns a path of the graph from the source
  whose weights add up to the node's distance.
\<close>

definition resultado_correcto :: "grafo \<Rightarrow> nodo \<Rightarrow> dist_map \<Rightarrow> prev_map \<Rightarrow> bool" where
  "resultado_correcto g src dists prevs \<longleftrightarrow>
    map fst dists = map fst g \<and> map fst prevs = map fst g \<and>
    map_of dists src = Some (Finita 0) \<and>
    (\<forall>u ady v w du. map_of g u = Some ady \<longrightarrow> (v, w) \<in> set ady \<longrightarrow>
       map_of dists u = Some (Finita du) \<longrightarrow>
       (\<exists>dv. map_of dists v = Some (Finita dv) \<and> dv \<le> du + w)) \<and>
    (\<forall>v dv. map_of dists v = Some (Finita dv) \<longrightarrow>
       (\<exists>p. reconstruir_camino prevs src v = Some (Inr p) \<and> p \<noteq> [] \<and> hd p = src \<and>
            last p = v \<and> (\<forall>(a, b) \<in> set (aristas_camino p). peso_arista g a b \<noteq> None) \<and>
            peso_camino g p = dv))"

text \<open>
  Two facts about the loop that need no assumption on the graph: every node in the queue
  has a finite distance, and every node other than the source that has a finite distance
  has a predecessor, itself at a finite distance.
\<close>

definition cola_finita :: "dist_map \<Rightarrow> cola \<Rightarrow> bool" where
  "cola_finita dists heap \<longleftrightarrow> (\<forall>(d, x) \<in> set heap. \<exists>dx. map_of dists x = Some (Finita dx))"

definition arbol_prev :: "nodo \<Rightarrow> dist_map \<Rightarrow> prev_map \<Rightarrow> bool" where
  "arbol_prev src dists prevs \<longleftrightarrow>
     (\<forall>v dv. map_of dists v = Some (Finita dv) \<longrightarrow> v \<noteq> src \<longrightarrow>
        (\<exists>u du. map_of prevs v = Some (Some u) \<and> map_of dists u = Some (Finita du)))"

text \<open>
  The invariant of the first loop of \<open>construir_grafo\<close>, after the edges \<open>rutas\<close>:
  every node seen is in \<open>nodos\<close>, and every entry of the dictionary comes from an edge.
\<close>

definition inv_construir :: "ruta list \<Rightarrow> grafo \<times> nodo list \<Rightarrow> bool" where
  "inv_construir rutas s \<longleftrightarrow>
     (case s of (g, ns) \<Rightarrow>
        distinct (map fst g) \<and>
        (\<forall>(ori, d, w) \<in> set rutas. ori \<in> set ns \<and> d \<in> set ns) \<and>
        (\<forall>(u, ady) \<in> set g. distinct (map fst ady) \<and>
           (\<forall>(v, w) \<in> set ady. v \<in> set ns \<and> (\<exists>ori. (ori, v, w) \<in> set rutas))))"

text \<open>The example of the main program, with a fourth shipment from an unknown origin.\<close>

definition rutas_ejemplo :: "ruta list" where
  "rutas_ejemplo =
     [(''A'', ''B'', 5), (''A'', ''C'', 10), (''B'', ''C'', 3), (''C'', ''D'', 3 / 2),
      (''B'', ''D'', 9)]"

definition envios_ejemplo :: "envio list" where
  "envios_ejemplo = [(1, ''A'', ''D''), (2, ''B'', ''A''), (3, ''A'', ''C''), (4, ''Z'', ''A'')]"

section \<open>The queue and the relaxation loop\<close>

lemma minimo_en: "minimo m xs \<in> set (m # xs)"
  by (induction xs arbitrary: m) auto

lemma minimo_le_inicial: "fst (minimo m xs) \<le> fst m"
proof (induction xs arbitrary: m)
  case Nil
  show ?case by simp
next
  case (Cons y ys)
  have "fst (if tupla_menor y m then y else m) \<le> fst m"
    by (cases y; cases m) auto
  with Cons[of "if tupla_menor y m then y else m"] show ?case
    by (simp del: tupla_menor.simps) 
qed

lemma minimo_le_resto: "x \<in> set xs \<Longrightarrow> fst (minimo m xs) \<le> fst x"
proof (induction xs arbitrary: m)
  case Nil
  then show ?case by simp
next
  case (Cons y ys)
  let ?m = "if tupla_menor y m then y else m"
  show ?case
  proof (cases "x = y")
    case True
    have "fst ?m \<le> fst y" by (cases y; cases m) auto
    with minimo_le_inicial[of ?m ys] True show ?thesis
      by (simp del: tupla_menor.simps)
  next
    case False
    with Cons.prems have "x \<in> set ys" by simp
    from Cons.IH[OF this, of ?m] show ?thesis by (simp del: tupla_menor.simps)
  qed
qed

lemma heappop_None: "heappop heap = None \<longleftrightarrow> heap = []"
  by (cases heap) (simp_all add: Let_def)

lemma heappop_SomeD:
  assumes "heappop heap = Some (t, heap')"
  shows "t \<in> set heap" and "heap' = remove1 t heap" and "\<And>x. x \<in> set heap \<Longrightarrow> fst t \<le> fst x"
proof -
  from assms obtain y ys where h: "heap = y # ys" by (cases heap) auto
  with assms have t: "t = minimo y ys" and r: "heap' = remove1 t heap"
    by (auto simp: Let_def)
  show "t \<in> set heap" using minimo_en[of y ys] t h by simp
  show "heap' = remove1 t heap" by (rule r)
  fix x assume "x \<in> set heap"
  then show "fst t \<le> fst x"
    using minimo_le_inicial[of y ys] minimo_le_resto[of x ys y] t h by auto
qed

lemma relajar_Cons:
  assumes "relajar u d ((v, w) # ady) (dists, prevs, heap) = Inr s'"
  obtains dv where "map_of dists v = Some dv" and "mejora (d + w) dv"
      and "relajar u d ady (AList.update v (Finita (d + w)) dists,
             AList.update v (Some u) prevs, heap @ [(d + w, v)]) = Inr s'"
  | dv where "map_of dists v = Some dv" and "\<not> mejora (d + w) dv"
      and "relajar u d ady (dists, prevs, heap) = Inr s'"
  using assms by (auto simp: Let_def heappush_def split: option.splits if_splits)

lemma map_of_clave: "map_of al k = Some v \<Longrightarrow> k \<in> set (map fst al)"
  by (metis map_of_eq_None_iff option.distinct(1) set_map)

lemma relajar_claves:
  "relajar u d ady (dists, prevs, heap) = Inr (dists', prevs', heap') \<Longrightarrow>
   map fst prevs = map fst dists \<Longrightarrow>
   map fst dists' = map fst dists \<and> map fst prevs' = map fst dists"
proof (induction ady arbitrary: dists prevs heap)
  case Nil
  then show ?case by simp
next
  case (Cons a ady)
  obtain v w where a: "a = (v, w)" by (cases a)
  from Cons.prems(1)[unfolded a] show ?case
  proof (cases rule: relajar_Cons)
    case (1 dv)
    from 1(1) have "v \<in> set (map fst dists)" by (rule map_of_clave)
    then have k: "map fst (AList.update v (Finita (d + w)) dists) = map fst dists"
      "map fst (AList.update v (Some u) prevs) = map fst dists"
      using Cons.prems(2) by (simp_all add: update_keys)
    from Cons.IH[OF 1(3)] k show ?thesis by simp
  next
    case (2 dv)
    from Cons.IH[OF 2(3) Cons.prems(2)] show ?thesis .
  qed
qed

lemma relajar_total:
  "(\<forall>(v, w) \<in> set ady. v \<in> set (map fst dists)) \<Longrightarrow>
   \<exists>s'. relajar u d ady (dists, prevs, heap) = Inr s'"
proof (induction ady arbitrary: dists prevs heap)
  case Nil
  then show ?case by simp
next
  case (Cons a ady)
  obtain v w where a: "a = (v, w)" by (cases a)
  from Cons.prems a have "v \<in> set (map fst dists)" by auto
  then obtain dv where dv: "map_of dists v = Some dv"
    by (metis map_of_eq_None_iff not_None_eq set_map)
  have r: "\<forall>(v, w) \<in> set ady. v \<in> set (map fst dists)" using Cons.prems by auto
  show ?case
  proof (cases "mejora (d + w) dv")
    case True
    have "\<forall>(x, y) \<in> set ady. x \<in> set (map fst (AList.update v (Finita (d + w)) dists))"
      using r by (auto simp: update_keys)
    from Cons.IH[OF this] True dv a show ?thesis by (simp add: Let_def)
  next
    case False
    from Cons.IH[OF r] False dv a show ?thesis by (simp add: Let_def)
  qed
qed

lemma mejora_trans: "mejora a (Finita b) \<Longrightarrow> mejora b old \<Longrightarrow> mejora a old"
  by (cases old) auto

lemma relajar_mono:
  "relajar u d ady (dists, prevs, heap) = Inr (dists', prevs', heap') \<Longrightarrow>
   map_of dists x = Some (Finita dx) \<Longrightarrow>
   \<exists>dx'. map_of dists' x = Some (Finita dx') \<and> dx' \<le> dx"
proof (induction ady arbitrary: dists prevs heap dx)
  case Nil
  then show ?case by simp
next
  case (Cons a ady)
  obtain v w where a: "a = (v, w)" by (cases a)
  from Cons.prems(1)[unfolded a] show ?case
  proof (cases rule: relajar_Cons)
    case (1 dv)
    let ?dists = "AList.update v (Finita (d + w)) dists"
    have "\<exists>dm. map_of ?dists x = Some (Finita dm) \<and> dm \<le> dx"
      using 1(1,2) Cons.prems(2) by (auto simp: update_conv')
    then obtain dm where dm: "map_of ?dists x = Some (Finita dm)" "dm \<le> dx" by blast
    from Cons.IH[OF 1(3) dm(1)] dm(2) show ?thesis by fastforce
  next
    case (2 dv)
    from Cons.IH[OF 2(3) Cons.prems(2)] show ?thesis .
  qed
qed

lemma relajar_cola:
  "relajar u d ady (dists, prevs, heap) = Inr (dists', prevs', heap') \<Longrightarrow>
   \<exists>nuevos. heap' = heap @ nuevos \<and>
     (\<forall>(a, x) \<in> set nuevos. \<exists>w. (x, w) \<in> set ady \<and> a = d + w \<and>
        (\<exists>dx. map_of dists' x = Some (Finita dx) \<and> dx \<le> a))"
proof (induction ady arbitrary: dists prevs heap)
  case Nil
  then show ?case by simp
next
  case (Cons a ady)
  obtain v w where a: "a = (v, w)" by (cases a)
  from Cons.prems(1)[unfolded a] show ?case
  proof (cases rule: relajar_Cons)
    case (1 dv)
    let ?dists = "AList.update v (Finita (d + w)) dists"
    from Cons.IH[OF 1(3)] obtain nuevos where n: "heap' = (heap @ [(d + w, v)]) @ nuevos"
      "\<forall>(a, x) \<in> set nuevos. \<exists>w. (x, w) \<in> set ady \<and> a = d + w \<and>
        (\<exists>dx. map_of dists' x = Some (Finita dx) \<and> dx \<le> a)" by blast
    have "map_of ?dists v = Some (Finita (d + w))" by (simp add: update_conv')
    from relajar_mono[OF 1(3) this] obtain dx where "map_of dists' v = Some (Finita dx)" "dx \<le> d + w"
      by blast
    with n a show ?thesis
      by (intro exI[of _ "(d + w, v) # nuevos"]) fastforce
  next
    case (2 dv)
    from Cons.IH[OF 2(3)] a show ?thesis by fastforce
  qed
qed

lemma relajar_nodo:
  "relajar u d ady (dists, prevs, heap) = Inr (dists', prevs', heap') \<Longrightarrow>
   (map_of dists' x = map_of dists x \<and> map_of prevs' x = map_of prevs x) \<or>
   (\<exists>w old. (x, w) \<in> set ady \<and> map_of dists x = Some old \<and> mejora (d + w) old \<and>
      map_of dists' x = Some (Finita (d + w)) \<and> map_of prevs' x = Some (Some u) \<and>
      (d + w, x) \<in> set heap')"
proof (induction ady arbitrary: dists prevs heap)
  case Nil
  then show ?case by simp
next
  case (Cons a ady)
  obtain v w where a: "a = (v, w)" by (cases a)
  from Cons.prems(1)[unfolded a] show ?case
  proof (cases rule: relajar_Cons)
    case (1 dv)
    let ?dists = "AList.update v (Finita (d + w)) dists"
    let ?prevs = "AList.update v (Some u) prevs"
    from relajar_cola[OF 1(3)] have en: "(d + w, v) \<in> set heap'" by auto
    from Cons.IH[OF 1(3)] show ?thesis
    proof
      assume s: "map_of dists' x = map_of ?dists x \<and> map_of prevs' x = map_of ?prevs x"
      show ?thesis
      proof (cases "x = v")
        case True
        with s 1(1,2) en a show ?thesis by (auto simp: update_conv')
      next
        case False
        with s show ?thesis by (simp add: update_conv')
      qed
    next
      assume "\<exists>w' old. (x, w') \<in> set ady \<and> map_of ?dists x = Some old \<and> mejora (d + w') old \<and>
        map_of dists' x = Some (Finita (d + w')) \<and> map_of prevs' x = Some (Some u) \<and>
        (d + w', x) \<in> set heap'"
      then obtain w' old where c: "(x, w') \<in> set ady" "map_of ?dists x = Some old"
        "mejora (d + w') old" "map_of dists' x = Some (Finita (d + w'))"
        "map_of prevs' x = Some (Some u)" "(d + w', x) \<in> set heap'" by blast
      have "\<exists>old0. map_of dists x = Some old0 \<and> mejora (d + w') old0"
      proof (cases "x = v")
        case True
        with c(2) have "old = Finita (d + w)" by (simp add: update_conv')
        with c(3) 1(2) have "mejora (d + w') dv" using mejora_trans by blast
        with 1(1) True show ?thesis by simp
      next
        case False
        with c(2,3) show ?thesis by (simp add: update_conv')
      qed
      with c a show ?thesis by auto
    qed
  next
    case (2 dv)
    from Cons.IH[OF 2(3)] a show ?thesis by auto
  qed
qed

lemma relajar_relajado:
  "relajar u d ady (dists, prevs, heap) = Inr (dists', prevs', heap') \<Longrightarrow>
   (v, w) \<in> set ady \<Longrightarrow>
   \<exists>dv. map_of dists' v = Some (Finita dv) \<and> dv \<le> d + w"
proof (induction ady arbitrary: dists prevs heap)
  case Nil
  then show ?case by simp
next
  case (Cons a ady)
  obtain v0 w0 where a: "a = (v0, w0)" by (cases a)
  from Cons.prems(1)[unfolded a] show ?case
  proof (cases rule: relajar_Cons)
    case (1 dv)
    show ?thesis
    proof (cases "(v, w) = (v0, w0)")
      case True
      have "map_of (AList.update v0 (Finita (d + w0)) dists) v0 = Some (Finita (d + w0))"
        by (simp add: update_conv')
      from relajar_mono[OF 1(3) this] True show ?thesis by simp
    next
      case False
      with Cons.prems(2) a have "(v, w) \<in> set ady" by auto
      from Cons.IH[OF 1(3) this] show ?thesis .
    qed
  next
    case (2 dv)
    show ?thesis
    proof (cases "(v, w) = (v0, w0)")
      case True
      from 2(1,2) obtain x where x: "dv = Finita x" "x \<le> d + w0" by (cases dv) auto
      from relajar_mono[OF 2(3)] 2(1) x True show ?thesis by fastforce
    next
      case False
      with Cons.prems(2) a have "(v, w) \<in> set ady" by auto
      from Cons.IH[OF 2(3) this] show ?thesis .
    qed
  qed
qed

lemma relajar_sin_cambio:
  "(\<forall>(v, w) \<in> set ady. \<exists>dv. map_of dists v = Some (Finita dv) \<and> dv \<le> d + w) \<Longrightarrow>
   relajar u d ady (dists, prevs, heap) = Inr (dists, prevs, heap)"
  by (induction ady) (auto simp: Let_def)

section \<open>The graph built from the edges\<close>

lemma setdefault_claves: "fst ` set (setdefault k v al) = insert k (fst ` set al)"
  by (auto simp: setdefault_def split: option.splits dest: map_of_clave)

lemma setdefault_map_of:
  "map_of (setdefault k v al) x = (case map_of al x of Some a \<Rightarrow> Some a | None \<Rightarrow> if x = k then Some v else None)"
  by (auto simp: setdefault_def map_add_def split: option.splits)

lemma setdefault_set: "set (setdefault k v al) \<subseteq> insert (k, v) (set al)"
  by (auto simp: setdefault_def split: option.splits)

lemma setdefault_distinct: "distinct (map fst al) \<Longrightarrow> distinct (map fst (setdefault k v al))"
  by (auto simp: setdefault_def map_of_eq_None_iff split: option.splits)

lemma fold_setdefault_map_of:
  "map_of (fold (\<lambda>n g. setdefault n [] g) ns g) x =
     (case map_of g x of Some a \<Rightarrow> Some a | None \<Rightarrow> if x \<in> set ns then Some [] else None)"
  by (induction ns arbitrary: g) (auto simp: setdefault_map_of split: option.splits)

lemma fold_setdefault_set:
  "set (fold (\<lambda>n g. setdefault n [] g) ns g) \<subseteq> set g \<union> (\<lambda>n. (n, [])) ` set ns"
proof (induction ns arbitrary: g)
  case Nil
  show ?case by simp
next
  case (Cons n ns)
  from Cons[of "setdefault n [] g"] setdefault_set[of n "[]" g] show ?case by auto
qed

lemma fold_setdefault_distinct:
  "distinct (map fst g) \<Longrightarrow> distinct (map fst (fold (\<lambda>n g. setdefault n [] g) ns g))"
  by (induction ns arbitrary: g) (auto simp: setdefault_distinct)

lemma set_update_sub: "set (AList.update k v al) \<subseteq> insert (k, v) (set al)"
  by (induction al) auto

lemma agregar_ruta_inv:
  assumes "inv_construir rutas s"
  shows "inv_construir (r # rutas) (agregar_ruta r s)"
proof -
  obtain g ns where s: "s = (g, ns)" by (cases s)
  obtain ori d w where r: "r = (ori, d, w)" by (cases r)
  let ?ady = "case map_of g ori of None \<Rightarrow> [] | Some a \<Rightarrow> a"
  let ?ady' = "AList.update d w ?ady"
  let ?g' = "AList.update ori ?ady' g"
  let ?ns' = "List.insert d (List.insert ori ns)"
  have res: "agregar_ruta r s = (?g', ?ns')" by (simp add: agregar_ruta_def s r)
  from assms s have dg: "distinct (map fst g)"
    and nod: "\<forall>(ori, d, w) \<in> set rutas. ori \<in> set ns \<and> d \<in> set ns"
    and ad: "\<forall>(u, ady) \<in> set g. distinct (map fst ady) \<and>
           (\<forall>(v, w) \<in> set ady. v \<in> set ns \<and> (\<exists>ori. (ori, v, w) \<in> set rutas))"
    by (auto simp: inv_construir_def)
  have ady: "distinct (map fst ?ady) \<and> (\<forall>(v, w) \<in> set ?ady. v \<in> set ns \<and> (\<exists>ori. (ori, v, w) \<in> set rutas))"
  proof (cases "map_of g ori")
    case None
    then show ?thesis by simp
  next
    case (Some a)
    then have "(ori, a) \<in> set g" by (rule map_of_SomeD)
    with ad Some show ?thesis by auto
  qed
  have ady': "distinct (map fst ?ady') \<and> (\<forall>(v, w') \<in> set ?ady'. v \<in> set ?ns' \<and> (\<exists>ori'. (ori', v, w') \<in> set (r # rutas)))"
  proof
    show "distinct (map fst ?ady')" using ady by (simp add: distinct_update)
    show "\<forall>(v, w') \<in> set ?ady'. v \<in> set ?ns' \<and> (\<exists>ori'. (ori', v, w') \<in> set (r # rutas))"
    proof (clarify)
      fix v w' assume "(v, w') \<in> set ?ady'"
      with set_update_sub[of d w ?ady] have "(v, w') = (d, w) \<or> (v, w') \<in> set ?ady" by auto
      then show "v \<in> set ?ns' \<and> (\<exists>ori'. (ori', v, w') \<in> set (r # rutas))"
        using ady r by fastforce
    qed
  qed
  have 1: "distinct (map fst ?g')" using dg by (simp add: distinct_update)
  have 2: "\<forall>(ori, d, w) \<in> set (r # rutas). ori \<in> set ?ns' \<and> d \<in> set ?ns'"
    using nod r by auto
  have 3: "\<forall>(u, a) \<in> set ?g'. distinct (map fst a) \<and>
           (\<forall>(v, w) \<in> set a. v \<in> set ?ns' \<and> (\<exists>ori. (ori, v, w) \<in> set (r # rutas)))"
  proof (clarify)
    fix u a assume "(u, a) \<in> set ?g'"
    with set_update_sub[of ori ?ady' g] have "(u, a) = (ori, ?ady') \<or> (u, a) \<in> set g" by auto
    then show "distinct (map fst a) \<and>
           (\<forall>(v, w) \<in> set a. v \<in> set ?ns' \<and> (\<exists>ori. (ori, v, w) \<in> set (r # rutas)))"
    proof
      assume "(u, a) = (ori, ?ady')"
      with ady' show ?thesis by simp
    next
      assume "(u, a) \<in> set g"
      with ad show ?thesis by fastforce
    qed
  qed
  from 1 2 3 show ?thesis unfolding res inv_construir_def by simp
qed

lemma fold_agregar_inv:
  "inv_construir hechas s \<Longrightarrow> inv_construir (rev rutas @ hechas) (fold agregar_ruta rutas s)"
proof (induction rutas arbitrary: hechas s)
  case Nil
  then show ?case by simp
next
  case (Cons r rutas)
  from Cons.IH[OF agregar_ruta_inv[OF Cons.prems, of r]] show ?case by simp
qed

lemma agregar_ruta_claves:
  "fst ` set (fst (agregar_ruta (ori, d, w) (g, ns))) = insert ori (fst ` set g)"
  by (simp add: agregar_ruta_def dom_update Let_def)

lemma fold_agregar_claves:
  "fst ` set (fst (fold agregar_ruta rutas s)) = fst ` set (fst s) \<union> (\<lambda>(ori, d, w). ori) ` set rutas"
proof (induction rutas arbitrary: s)
  case Nil
  show ?case by simp
next
  case (Cons r rutas)
  obtain g ns where s: "s = (g, ns)" by (cases s)
  obtain ori d w where r: "r = (ori, d, w)" by (cases r)
  show ?case using Cons[of "agregar_ruta r s"] agregar_ruta_claves[of ori d w g ns]
    by (auto simp: s r)
qed

lemma construir_grafo_valido:
  assumes "pesos_no_negativos rutas"
  shows "grafo_valido (construir_grafo rutas)"
proof -
  obtain g ns where f: "fold agregar_ruta rutas ([], []) = (g, ns)"
    by (cases "fold agregar_ruta rutas ([], [])")
  let ?g = "fold (\<lambda>n g. setdefault n [] g) ns g"
  have cg: "construir_grafo rutas = ?g" by (simp add: construir_grafo_def f)
  have "inv_construir [] ([], [])" by (simp add: inv_construir_def)
  from fold_agregar_inv[OF this, of rutas] f have inv: "inv_construir (rev rutas) (g, ns)" by simp
  then have dg: "distinct (map fst g)"
    and ad: "\<forall>(u, ady) \<in> set g. distinct (map fst ady) \<and>
           (\<forall>(v, w) \<in> set ady. v \<in> set ns \<and> (\<exists>ori. (ori, v, w) \<in> set rutas))"
    by (auto simp: inv_construir_def)
  have claves: "set ns \<subseteq> fst ` set ?g"
  proof
    fix n assume "n \<in> set ns"
    then have "map_of ?g n \<noteq> None" by (simp add: fold_setdefault_map_of split: option.splits)
    then show "n \<in> fst ` set ?g" by (simp add: map_of_eq_None_iff)
  qed
  have "\<forall>(u, ady) \<in> set ?g. distinct (map fst ady) \<and>
        (\<forall>(v, w) \<in> set ady. v \<in> fst ` set ?g \<and> 0 \<le> w)"
  proof (clarify)
    fix u ady assume "(u, ady) \<in> set ?g"
    with fold_setdefault_set[of ns g] have "(u, ady) \<in> set g \<or> ady = []" by auto
    then show "distinct (map fst ady) \<and> (\<forall>(v, w) \<in> set ady. v \<in> fst ` set ?g \<and> 0 \<le> w)"
    proof
      assume "(u, ady) \<in> set g"
      with ad have a: "distinct (map fst ady)"
        "\<forall>(v, w) \<in> set ady. v \<in> set ns \<and> (\<exists>ori. (ori, v, w) \<in> set rutas)" by auto
      have "\<forall>(v, w) \<in> set ady. v \<in> fst ` set ?g \<and> 0 \<le> w"
      proof (clarify)
        fix v w assume "(v, w) \<in> set ady"
        with a(2) obtain ori where "v \<in> set ns" "(ori, v, w) \<in> set rutas" by auto
        with claves assms show "v \<in> fst ` set ?g \<and> 0 \<le> w"
          by (auto simp: pesos_no_negativos_def)
      qed
      with a(1) show ?thesis by simp
    next
      assume "ady = []"
      then show ?thesis by simp
    qed
  qed
  with fold_setdefault_distinct[OF dg, of ns] show ?thesis
    unfolding cg grafo_valido_def by simp
qed

section \<open>The invariant of the loop\<close>

lemma cadena_extremos: "cadena prevs src v p \<Longrightarrow> p \<noteq> [] \<and> hd p = src \<and> last p = v"
  by (induction rule: cadena.induct) auto

lemma cadena_cambio:
  "cadena prevs src v p \<Longrightarrow> (\<forall>y \<in> set p. map_of prevs' y = map_of prevs y) \<Longrightarrow>
   cadena prevs' src v p"
proof (induction rule: cadena.induct)
  case cadena_origen
  show ?case by (rule cadena.cadena_origen)
next
  case (cadena_paso v u p)
  from cadena_paso.prems cadena_paso.hyps(2) have "map_of prevs' v = Some (Some u)" by simp
  moreover from cadena_paso.prems have "cadena prevs' src u p" by (intro cadena_paso.IH) simp
  ultimately show ?case using cadena_paso.hyps(1) by (intro cadena.cadena_paso)
qed

lemma inv_bucleD:
  assumes "inv_bucle g src D (dists, prevs, heap)"
  shows "map fst dists = map fst g" and "map fst prevs = map fst g"
    and "map_of dists src = Some (Finita 0)" and "map_of prevs src = Some None"
    and "D \<subseteq> fst ` set g"
    and "\<And>x dx. map_of dists x = Some (Finita dx) \<Longrightarrow> 0 \<le> dx"
    and "\<And>d x. (d, x) \<in> set heap \<Longrightarrow> \<exists>dx. map_of dists x = Some (Finita dx) \<and> dx \<le> d"
    and "\<And>x dx. map_of dists x = Some (Finita dx) \<Longrightarrow> x \<in> D \<or> (dx, x) \<in> set heap"
    and "\<And>u. u \<in> D \<Longrightarrow> \<exists>du. map_of dists u = Some (Finita du) \<and>
           (\<forall>(d, x) \<in> set heap. du \<le> d) \<and>
           (\<forall>ady v w. map_of g u = Some ady \<longrightarrow> (v, w) \<in> set ady \<longrightarrow>
              (\<exists>dv. map_of dists v = Some (Finita dv) \<and> dv \<le> du + w)) \<and>
           (\<exists>p. cadena prevs src u p \<and> set p \<subseteq> D)"
    and "\<And>v dv. map_of dists v = Some (Finita dv) \<Longrightarrow> v \<noteq> src \<Longrightarrow>
           (\<exists>u du ady w. map_of prevs v = Some (Some u) \<and> u \<in> D \<and>
              map_of g u = Some ady \<and> (v, w) \<in> set ady \<and>
              map_of dists u = Some (Finita du) \<and> dv = du + w)"
  using assms unfolding inv_bucle_def prod.case by blast+

lemma inv_bucleI:
  assumes "map fst dists = map fst g" and "map fst prevs = map fst g"
    and "map_of dists src = Some (Finita 0)" and "map_of prevs src = Some None"
    and "D \<subseteq> fst ` set g"
    and "\<And>x dx. map_of dists x = Some (Finita dx) \<Longrightarrow> 0 \<le> dx"
    and "\<And>d x. (d, x) \<in> set heap \<Longrightarrow> \<exists>dx. map_of dists x = Some (Finita dx) \<and> dx \<le> d"
    and "\<And>x dx. map_of dists x = Some (Finita dx) \<Longrightarrow> x \<in> D \<or> (dx, x) \<in> set heap"
    and "\<And>u. u \<in> D \<Longrightarrow> \<exists>du. map_of dists u = Some (Finita du) \<and>
           (\<forall>(d, x) \<in> set heap. du \<le> d) \<and>
           (\<forall>ady v w. map_of g u = Some ady \<longrightarrow> (v, w) \<in> set ady \<longrightarrow>
              (\<exists>dv. map_of dists v = Some (Finita dv) \<and> dv \<le> du + w)) \<and>
           (\<exists>p. cadena prevs src u p \<and> set p \<subseteq> D)"
    and "\<And>v dv. map_of dists v = Some (Finita dv) \<Longrightarrow> v \<noteq> src \<Longrightarrow>
           (\<exists>u du ady w. map_of prevs v = Some (Some u) \<and> u \<in> D \<and>
              map_of g u = Some ady \<and> (v, w) \<in> set ady \<and>
              map_of dists u = Some (Finita du) \<and> dv = du + w)"
  shows "inv_bucle g src D (dists, prevs, heap)"
  unfolding inv_bucle_def prod.case
  apply (intro conjI)
  using assms(1) apply blast
  using assms(2) apply blast
  using assms(3) apply blast
  using assms(4) apply blast
  using assms(5) apply blast
  using assms(6) apply blast
  using assms(7) apply blast
  using assms(8) apply blast
  using assms(9) apply blast
  using assms(10) apply blast
  done

lemma inv_bucle_obsoleto:
  assumes inv: "inv_bucle g src D (dists, prevs, heap)"
    and du: "map_of dists u = Some (Finita du)" "du < d"
  shows "inv_bucle g src D (dists, prevs, remove1 (d, u) heap)"
proof (rule inv_bucleI)
  note I = inv_bucleD[OF inv]
  have sub: "\<And>y. y \<in> set (remove1 (d, u) heap) \<Longrightarrow> y \<in> set heap"
    using set_remove1_subset[of "(d, u)" heap] by blast
  show "map fst dists = map fst g" "map fst prevs = map fst g"
    "map_of dists src = Some (Finita 0)" "map_of prevs src = Some None" "D \<subseteq> fst ` set g"
    by (rule I)+
  show "\<And>x dx. map_of dists x = Some (Finita dx) \<Longrightarrow> 0 \<le> dx" by (rule I(6))
  show "\<And>d' x. (d', x) \<in> set (remove1 (d, u) heap) \<Longrightarrow>
      \<exists>dx. map_of dists x = Some (Finita dx) \<and> dx \<le> d'"
    using I(7) sub by blast
  show "\<And>x dx. map_of dists x = Some (Finita dx) \<Longrightarrow>
      x \<in> D \<or> (dx, x) \<in> set (remove1 (d, u) heap)"
  proof -
    fix x dx assume a: "map_of dists x = Some (Finita dx)"
    from I(8)[OF a] show "x \<in> D \<or> (dx, x) \<in> set (remove1 (d, u) heap)"
    proof
      assume "(dx, x) \<in> set heap"
      moreover have "(dx, x) \<noteq> (d, u)" using a du by auto
      ultimately show ?thesis by simp
    qed simp
  qed
  show "\<And>y. y \<in> D \<Longrightarrow> \<exists>du. map_of dists y = Some (Finita du) \<and>
           (\<forall>(d', x) \<in> set (remove1 (d, u) heap). du \<le> d') \<and>
           (\<forall>ady v w. map_of g y = Some ady \<longrightarrow> (v, w) \<in> set ady \<longrightarrow>
              (\<exists>dv. map_of dists v = Some (Finita dv) \<and> dv \<le> du + w)) \<and>
           (\<exists>p. cadena prevs src y p \<and> set p \<subseteq> D)"
  proof -
    fix y assume "y \<in> D"
    from I(9)[OF this] obtain dy where dy: "map_of dists y = Some (Finita dy)"
      "\<forall>(d', x) \<in> set heap. dy \<le> d'"
      "\<forall>ady v w. map_of g y = Some ady \<longrightarrow> (v, w) \<in> set ady \<longrightarrow>
              (\<exists>dv. map_of dists v = Some (Finita dv) \<and> dv \<le> dy + w)"
      "\<exists>p. cadena prevs src y p \<and> set p \<subseteq> D" by blast
    from dy(2) sub have "\<forall>(d', x) \<in> set (remove1 (d, u) heap). dy \<le> d'" by blast
    with dy(1,3,4) show "\<exists>du. map_of dists y = Some (Finita du) \<and>
           (\<forall>(d', x) \<in> set (remove1 (d, u) heap). du \<le> d') \<and>
           (\<forall>ady v w. map_of g y = Some ady \<longrightarrow> (v, w) \<in> set ady \<longrightarrow>
              (\<exists>dv. map_of dists v = Some (Finita dv) \<and> dv \<le> du + w)) \<and>
           (\<exists>p. cadena prevs src y p \<and> set p \<subseteq> D)" by blast
  qed
  show "\<And>v dv. map_of dists v = Some (Finita dv) \<Longrightarrow> v \<noteq> src \<Longrightarrow>
           (\<exists>u du ady w. map_of prevs v = Some (Some u) \<and> u \<in> D \<and>
              map_of g u = Some ady \<and> (v, w) \<in> set ady \<and>
              map_of dists u = Some (Finita du) \<and> dv = du + w)"
    by (rule I(10))
qed


lemma inv_bucle_relajar:
  assumes val: "grafo_valido g"
    and inv: "inv_bucle g src D (dists, prevs, heap)"
    and t: "(d, u) \<in> set heap"
    and mn: "\<And>y. y \<in> set heap \<Longrightarrow> d \<le> fst y"
    and du: "map_of dists u = Some (Finita d)"
    and ady: "map_of g u = Some ady"
    and rel: "relajar u d ady (dists, prevs, remove1 (d, u) heap) = Inr (dists', prevs', heap')"
  shows "inv_bucle g src (insert u D) (dists', prevs', heap')"
proof (rule inv_bucleI)
  note I = inv_bucleD[OF inv]
  let ?h = "remove1 (d, u) heap"
  have sub: "\<And>y. y \<in> set ?h \<Longrightarrow> y \<in> set heap"
    using set_remove1_subset[of "(d, u)" heap] by blast
  have ug: "(u, ady) \<in> set g" using ady by (rule map_of_SomeD)
  have wpos: "\<And>v w. (v, w) \<in> set ady \<Longrightarrow> 0 \<le> w"
    using val ug unfolding grafo_valido_def by fastforce
  have dpos: "0 \<le> d" using I(6)[OF du] .
  note nodo = relajar_nodo[OF rel]
  note mono = relajar_mono[OF rel]
  have estable: "map_of dists' x = map_of dists x \<and> map_of prevs' x = map_of prevs x"
    if a: "map_of dists x = Some (Finita dx)" "dx \<le> d" for x dx
    using nodo[of x]
  proof
    assume "\<exists>w old. (x, w) \<in> set ady \<and> map_of dists x = Some old \<and> mejora (d + w) old \<and>
      map_of dists' x = Some (Finita (d + w)) \<and> map_of prevs' x = Some (Some u) \<and>
      (d + w, x) \<in> set heap'"
    then obtain w where c: "(x, w) \<in> set ady" "mejora (d + w) (Finita dx)" using a(1) by auto
    from c(2) wpos[OF c(1)] a(2) have False by simp
    then show ?thesis ..
  qed simp
  obtain nuevos where cola: "heap' = ?h @ nuevos"
    "\<forall>(a, x) \<in> set nuevos. \<exists>w. (x, w) \<in> set ady \<and> a = d + w \<and>
        (\<exists>dx. map_of dists' x = Some (Finita dx) \<and> dx \<le> a)"
    using relajar_cola[OF rel] by blast
  have Dd: "\<exists>dy. map_of dists y = Some (Finita dy) \<and> dy \<le> d" if "y \<in> D" for y
    using I(9)[OF that] t by fastforce
  have Dest: "map_of dists' y = map_of dists y \<and> map_of prevs' y = map_of prevs y"
    if "y \<in> D" for y
    using Dd[OF that] estable by blast
  have uest: "map_of dists' u = Some (Finita d) \<and> map_of prevs' u = map_of prevs u"
    using estable[OF du] du by simp
  have sest: "map_of dists' src = Some (Finita 0) \<and> map_of prevs' src = Some None"
    using estable[OF I(3) dpos] I(3,4) by simp
  have nuevo_cota: "d \<le> a" if "(a, x) \<in> set nuevos" for a x
  proof -
    from cola(2) that obtain w where "(x, w) \<in> set ady" "a = d + w" by fastforce
    with wpos show ?thesis by fastforce
  qed
  have cadD: "cadena prevs' src y p" if "cadena prevs src y p" "set p \<subseteq> D" for y p
    using that(1)
  proof (rule cadena_cambio)
    show "\<forall>z \<in> set p. map_of prevs' z = map_of prevs z" using that(2) Dest by blast
  qed
  from relajar_claves[OF rel] I(1,2)
  show "map fst dists' = map fst g" "map fst prevs' = map fst g" by simp_all
  show "map_of dists' src = Some (Finita 0)" "map_of prevs' src = Some None"
    using sest by simp_all
  have uK: "u \<in> fst ` set g" using ug by force
  with I(5) show "insert u D \<subseteq> fst ` set g" by simp
  show "0 \<le> dx" if a: "map_of dists' x = Some (Finita dx)" for x dx
    using nodo[of x]
  proof
    assume "map_of dists' x = map_of dists x \<and> map_of prevs' x = map_of prevs x"
    with a I(6) show ?thesis by simp
  next
    assume "\<exists>w old. (x, w) \<in> set ady \<and> map_of dists x = Some old \<and> mejora (d + w) old \<and>
      map_of dists' x = Some (Finita (d + w)) \<and> map_of prevs' x = Some (Some u) \<and>
      (d + w, x) \<in> set heap'"
    then obtain w where "(x, w) \<in> set ady" "map_of dists' x = Some (Finita (d + w))" by blast
    with a wpos[of x w] dpos show ?thesis by simp
  qed
  show "\<exists>dx. map_of dists' x = Some (Finita dx) \<and> dx \<le> a" if a: "(a, x) \<in> set heap'" for a x
  proof (cases "(a, x) \<in> set ?h")
    case True
    from I(7)[OF sub[OF True]] obtain dx where "map_of dists x = Some (Finita dx)" "dx \<le> a"
      by blast
    with mono[of x dx] show ?thesis by fastforce
  next
    case False
    with a cola(1) have "(a, x) \<in> set nuevos" by simp
    with cola(2) show ?thesis by fastforce
  qed
  show "x \<in> insert u D \<or> (dx, x) \<in> set heap'" if a: "map_of dists' x = Some (Finita dx)" for x dx
    using nodo[of x]
  proof
    assume e: "map_of dists' x = map_of dists x \<and> map_of prevs' x = map_of prevs x"
    with a have "map_of dists x = Some (Finita dx)" by simp
    from I(8)[OF this] show ?thesis
    proof
      assume h: "(dx, x) \<in> set heap"
      show ?thesis
      proof (cases "(dx, x) = (d, u)")
        case True
        then show ?thesis by simp
      next
        case False
        with h have "(dx, x) \<in> set ?h" by simp
        with cola(1) show ?thesis by simp
      qed
    qed simp
  next
    assume "\<exists>w old. (x, w) \<in> set ady \<and> map_of dists x = Some old \<and> mejora (d + w) old \<and>
      map_of dists' x = Some (Finita (d + w)) \<and> map_of prevs' x = Some (Some u) \<and>
      (d + w, x) \<in> set heap'"
    with a show ?thesis by auto
  qed
  show "\<exists>dy. map_of dists' y = Some (Finita dy) \<and>
           (\<forall>(a, x) \<in> set heap'. dy \<le> a) \<and>
           (\<forall>ady v w. map_of g y = Some ady \<longrightarrow> (v, w) \<in> set ady \<longrightarrow>
              (\<exists>dv. map_of dists' v = Some (Finita dv) \<and> dv \<le> dy + w)) \<and>
           (\<exists>p. cadena prevs' src y p \<and> set p \<subseteq> insert u D)"
    if yD: "y \<in> insert u D" for y
  proof (cases "y \<in> D")
    case True
    from I(9)[OF True] obtain dy where dy: "map_of dists y = Some (Finita dy)"
      "\<forall>(d', x) \<in> set heap. dy \<le> d'"
      "\<forall>ady v w. map_of g y = Some ady \<longrightarrow> (v, w) \<in> set ady \<longrightarrow>
              (\<exists>dv. map_of dists v = Some (Finita dv) \<and> dv \<le> dy + w)"
      "\<exists>p. cadena prevs src y p \<and> set p \<subseteq> D" by blast
    from dy(2) t have dyd: "dy \<le> d" by fastforce
    have 1: "map_of dists' y = Some (Finita dy)" using Dest[OF True] dy(1) by simp
    have 2: "\<forall>(a, x) \<in> set heap'. dy \<le> a"
    proof (clarify)
      fix a x assume "(a, x) \<in> set heap'"
      with cola(1) have "(a, x) \<in> set heap \<or> (a, x) \<in> set nuevos" using sub by auto
      then show "dy \<le> a" using dy(2) nuevo_cota dyd by fastforce
    qed
    have 3: "\<forall>ady v w. map_of g y = Some ady \<longrightarrow> (v, w) \<in> set ady \<longrightarrow>
              (\<exists>dv. map_of dists' v = Some (Finita dv) \<and> dv \<le> dy + w)"
    proof (intro allI impI)
      fix ady' v w assume "map_of g y = Some ady'" "(v, w) \<in> set ady'"
      with dy(3) obtain dv where "map_of dists v = Some (Finita dv)" "dv \<le> dy + w" by blast
      with mono[of v dv] show "\<exists>dv. map_of dists' v = Some (Finita dv) \<and> dv \<le> dy + w"
        by fastforce
    qed
    from dy(4) obtain p where "cadena prevs src y p" "set p \<subseteq> D" by blast
    with cadD have 4: "\<exists>p. cadena prevs' src y p \<and> set p \<subseteq> insert u D" by blast
    from 1 2 3 4 show ?thesis by blast
  next
    case False
    with yD have yu: "y = u" by simp
    have 1: "map_of dists' u = Some (Finita d)" using uest by simp
    have 2: "\<forall>(a, x) \<in> set heap'. d \<le> a"
    proof (clarify)
      fix a x assume "(a, x) \<in> set heap'"
      with cola(1) have "(a, x) \<in> set heap \<or> (a, x) \<in> set nuevos" using sub by auto
      then show "d \<le> a" using mn[of "(a, x)"] nuevo_cota by fastforce
    qed
    have 3: "\<forall>ady v w. map_of g u = Some ady \<longrightarrow> (v, w) \<in> set ady \<longrightarrow>
              (\<exists>dv. map_of dists' v = Some (Finita dv) \<and> dv \<le> d + w)"
      using relajar_relajado[OF rel] ady by simp
    have 4: "\<exists>p. cadena prevs' src u p \<and> set p \<subseteq> insert u D"
    proof (cases "u = src")
      case True
      have "cadena prevs' src src [src]" by (rule cadena_origen)
      with True show ?thesis by auto
    next
      case False
      from I(10)[OF du False] obtain u0 where u0: "map_of prevs u = Some (Some u0)" "u0 \<in> D"
        by blast
      from I(9)[OF u0(2)] obtain p where p: "cadena prevs src u0 p" "set p \<subseteq> D" by blast
      from cadD[OF p] have "cadena prevs' src u0 p" .
      moreover have "map_of prevs' u = Some (Some u0)" using uest u0(1) by simp
      ultimately have "cadena prevs' src u (p @ [u])" using False by (intro cadena_paso)
      with p(2) show ?thesis by (intro exI[of _ "p @ [u]"]) auto
    qed
    from 1 2 3 4 show ?thesis unfolding yu by blast
  qed
  show "\<exists>u' du' ady' w. map_of prevs' v = Some (Some u') \<and> u' \<in> insert u D \<and>
              map_of g u' = Some ady' \<and> (v, w) \<in> set ady' \<and>
              map_of dists' u' = Some (Finita du') \<and> dv = du' + w"
    if a: "map_of dists' v = Some (Finita dv)" "v \<noteq> src" for v dv
    using nodo[of v]
  proof
    assume e: "map_of dists' v = map_of dists v \<and> map_of prevs' v = map_of prevs v"
    with a have "map_of dists v = Some (Finita dv)" by simp
    from I(10)[OF this a(2)] obtain u' du' ady' w where
      c: "map_of prevs v = Some (Some u')" "u' \<in> D" "map_of g u' = Some ady'"
         "(v, w) \<in> set ady'" "map_of dists u' = Some (Finita du')" "dv = du' + w" by blast
    from Dest[OF c(2)] c(5) have "map_of dists' u' = Some (Finita du')" by simp
    with c e show ?thesis by auto
  next
    assume "\<exists>w old. (v, w) \<in> set ady \<and> map_of dists v = Some old \<and> mejora (d + w) old \<and>
      map_of dists' v = Some (Finita (d + w)) \<and> map_of prevs' v = Some (Some u) \<and>
      (d + w, v) \<in> set heap'"
    then obtain w where c: "(v, w) \<in> set ady" "map_of dists' v = Some (Finita (d + w))"
      "map_of prevs' v = Some (Some u)" by blast
    from c(2) a(1) have "dv = d + w" by simp
    with c ady uest show ?thesis by auto
  qed
qed

section \<open>Termination of the loop\<close>

lemma map_of_constante:
  "map_of (map (\<lambda>(n, _). (n, c)) g) x = (if x \<in> fst ` set g then Some c else None)"
  by (induction g) auto

lemma bucle_vacia: "bucle g (dists, prevs, []) = Some (Inr (dists, prevs))"
  by (subst bucle.simps) simp

lemma bucle_paso:
  "heappop heap = Some (t, heap') \<Longrightarrow> cuerpo g t (dists, prevs, heap') = Inr s' \<Longrightarrow>
   bucle g (dists, prevs, heap) = bucle g s'"
  by (subst bucle.simps) simp

lemma bucle_total_aux:
  assumes val: "grafo_valido g"
  shows "inv_bucle g src (fst x) (snd x) \<Longrightarrow>
         \<exists>dists prevs D'. bucle g (snd x) = Some (Inr (dists, prevs)) \<and>
            inv_bucle g src D' (dists, prevs, [])"
proof -
  have w: "wf (inv_image (less_than <*lex*> less_than)
       (\<lambda>(D, s :: estado). (card (fst ` set g - D), length (snd (snd s)))))"
    by (intro wf_inv_image wf_lex_prod wf_less_than)
  show "inv_bucle g src (fst x) (snd x) \<Longrightarrow>
         \<exists>dists prevs D'. bucle g (snd x) = Some (Inr (dists, prevs)) \<and>
            inv_bucle g src D' (dists, prevs, [])"
  proof (induction x rule: wf_induct_rule[OF w])
  case (1 x)
  obtain D dists prevs heap where x: "x = (D, dists, prevs, heap)" by (cases x) auto
  from 1(2) x have inv: "inv_bucle g src D (dists, prevs, heap)" by simp
  note I = inv_bucleD[OF inv]
  have IH: "\<exists>dists prevs D'. bucle g s' = Some (Inr (dists, prevs)) \<and>
            inv_bucle g src D' (dists, prevs, [])"
    if "inv_bucle g src D1 s'"
      "card (fst ` set g - D1) < card (fst ` set g - D) \<or>
       (card (fst ` set g - D1) = card (fst ` set g - D) \<and> length (snd (snd s')) < length heap)"
    for D1 s'
    using 1(1)[of "(D1, s')"] that x by auto
  show ?case
  proof (cases "heappop heap")
    case None
    then have "heap = []" by (simp add: heappop_None)
    with inv x bucle_vacia show ?thesis by auto
  next
    case (Some a)
    obtain d u h1 where a: "a = ((d, u), h1)" by (cases a) auto
    from Some a have pop: "heappop heap = Some ((d, u), h1)" by simp
    note P = heappop_SomeD[OF pop]
    have h1: "h1 = remove1 (d, u) heap" by (rule P(2))
    have len: "length h1 < length heap" using P(1) h1 by (simp add: length_remove1) (cases heap; auto)
    from I(7)[OF P(1)] obtain du where du: "map_of dists u = Some (Finita du)" "du \<le> d" by blast
    show ?thesis
    proof (cases "du < d")
      case True
      have c: "cuerpo g (d, u) (dists, prevs, h1) = Inr (dists, prevs, h1)"
        using du True by (simp add: cuerpo_def)
      have "inv_bucle g src D (dists, prevs, h1)"
        unfolding h1 by (rule inv_bucle_obsoleto[OF inv du(1) True])
      from IH[OF this] len bucle_paso[OF pop c] x show ?thesis by simp
    next
      case False
      with du have dd: "du = d" by simp
      have "u \<in> set (map fst g)" using map_of_clave[OF du(1)] I(1) by simp
      then obtain ady where ady: "map_of g u = Some ady"
        by (metis map_of_eq_None_iff not_None_eq set_map)
      then have ug: "(u, ady) \<in> set g" by (rule map_of_SomeD)
      have "\<forall>(v, w) \<in> set ady. v \<in> set (map fst dists)"
        using val ug I(1) unfolding grafo_valido_def by fastforce
      from relajar_total[OF this, of u d prevs h1] obtain dists' prevs' heap' where
        rel: "relajar u d ady (dists, prevs, h1) = Inr (dists', prevs', heap')"
        by (metis prod_cases3)
      have c: "cuerpo g (d, u) (dists, prevs, h1) = Inr (dists', prevs', heap')"
        using du dd ady rel by (simp add: cuerpo_def)
      have inv': "inv_bucle g src (insert u D) (dists', prevs', heap')"
        using inv_bucle_relajar[OF val inv P(1) _ du(1)[unfolded dd] ady rel[unfolded h1]] P(3)
        by fastforce
      have fin: "finite (fst ` set g - D)" by simp
      have uK: "u \<in> fst ` set g" using ug by force
      show ?thesis
      proof (cases "u \<in> D")
        case True
        from I(9)[OF True] du(1) dd ady
        have "\<forall>(v, w) \<in> set ady. \<exists>dv. map_of dists v = Some (Finita dv) \<and> dv \<le> d + w"
          by fastforce
        from relajar_sin_cambio[OF this, of u prevs h1] rel
        have "dists' = dists" "prevs' = prevs" "heap' = h1" by simp_all
        moreover from True have "insert u D = D" by auto
        ultimately have "inv_bucle g src D (dists', prevs', heap')" "length heap' < length heap"
          using inv' len by simp_all
        from IH[OF this(1)] this(2) bucle_paso[OF pop c] x show ?thesis by simp
      next
        case False
        have "fst ` set g - insert u D = (fst ` set g - D) - {u}" by auto
        moreover have "u \<in> fst ` set g - D" using uK False by simp
        ultimately have "card (fst ` set g - insert u D) < card (fst ` set g - D)"
          using card_Diff1_less[OF fin, of u] by simp
        from IH[OF inv'] this bucle_paso[OF pop c] x show ?thesis by simp
      qed
    qed
  qed
  qed
qed

lemma map_constante_claves: "map fst (map (\<lambda>(n, _). (n, c)) g) = map fst g"
  by (induction g) auto

lemma claves_iniciales:
  "src \<in> fst ` set g \<Longrightarrow>
   map fst (AList.update src v (map (\<lambda>(n, _). (n, c)) g)) = map fst g"
  by (induction g) auto

lemma inv_bucle_inicial:
  assumes "map_of g src = Some ady"
  shows "inv_bucle g src {}
           (AList.update src (Finita 0) (map (\<lambda>(n, _). (n, Infinito)) g),
            map (\<lambda>(n, _). (n, None)) g, [(0, src)])"
proof (rule inv_bucleI)
  let ?d0 = "map (\<lambda>(n, _). (n, Infinito)) g"
  let ?d = "AList.update src (Finita 0) ?d0"
  let ?p = "map (\<lambda>(n, _). (n, None :: nodo option)) g"
  from assms have sk: "src \<in> fst ` set g" by (metis map_of_clave set_map)
  have m: "map_of ?d x = (if x = src then Some (Finita 0) else if x \<in> fst ` set g then Some Infinito else None)" for x
    by (simp add: update_conv' map_of_constante)
  show "map fst ?d = map fst g" using sk by (rule claves_iniciales)
  show "map fst ?p = map fst g" by (rule map_constante_claves)
  show "map_of ?d src = Some (Finita 0)" by (simp add: m)
  show "map_of ?p src = Some None" using sk by (simp add: map_of_constante)
  show "{} \<subseteq> fst ` set g" by simp
  show "\<And>x dx. map_of ?d x = Some (Finita dx) \<Longrightarrow> 0 \<le> dx"
    by (auto simp: m split: if_splits)
  show "\<And>d x. (d, x) \<in> set [(0, src)] \<Longrightarrow> \<exists>dx. map_of ?d x = Some (Finita dx) \<and> dx \<le> d"
    by (auto simp: m)
  show "\<And>x dx. map_of ?d x = Some (Finita dx) \<Longrightarrow> x \<in> {} \<or> (dx, x) \<in> set [(0, src)]"
    by (auto simp: m split: if_splits)
  show "\<And>u. u \<in> {} \<Longrightarrow> \<exists>du. map_of ?d u = Some (Finita du) \<and>
           (\<forall>(d, x) \<in> set [(0, src)]. du \<le> d) \<and>
           (\<forall>ady v w. map_of g u = Some ady \<longrightarrow> (v, w) \<in> set ady \<longrightarrow>
              (\<exists>dv. map_of ?d v = Some (Finita dv) \<and> dv \<le> du + w)) \<and>
           (\<exists>p. cadena ?p src u p \<and> set p \<subseteq> {})"
    by simp
  show "\<And>v dv. map_of ?d v = Some (Finita dv) \<Longrightarrow> v \<noteq> src \<Longrightarrow>
           (\<exists>u du ady w. map_of ?p v = Some (Some u) \<and> u \<in> {} \<and>
              map_of g u = Some ady \<and> (v, w) \<in> set ady \<and>
              map_of ?d u = Some (Finita du) \<and> dv = du + w)"
    by (auto simp: m split: if_splits)
qed

lemma Dijkstra_total:
  assumes val: "grafo_valido g" and src: "map_of g src = Some ady"
  shows "\<exists>dists prevs D. Dijkstra g src = Some (Inr (dists, prevs)) \<and>
           inv_bucle g src D (dists, prevs, [])"
proof -
  let ?s = "(AList.update src (Finita 0) (map (\<lambda>(n, _). (n, Infinito)) g),
            map (\<lambda>(n, _). (n, None :: nodo option)) g, [(0 :: real, src)])"
  have "Dijkstra g src = bucle g ?s" using src by (simp add: Dijkstra_def)
  with bucle_total_aux[OF val, of src "({}, ?s)"] inv_bucle_inicial[OF src]
  show ?thesis by auto
qed

section \<open>The result of Dijkstra and the path read from it\<close>

lemma inv_final_finitos:
  assumes "inv_bucle g src D (dists, prevs, [])" and "map_of dists x = Some (Finita dx)"
  shows "x \<in> D"
  using inv_bucleD(8)[OF assms] by simp

lemma aristas_camino_snoc:
  "p \<noteq> [] \<Longrightarrow> aristas_camino (p @ [v]) = aristas_camino p @ [(last p, v)]"
proof (induction p)
  case Nil
  then show ?case by simp
next
  case (Cons a p)
  then show ?case by (cases p) (auto simp: aristas_camino_def)
qed

lemma longitud_aristas: "length (aristas_camino p) = length p - 1"
  by (simp add: aristas_camino_def)

lemma cadena_peso:
  assumes val: "grafo_valido g"
    and inv: "inv_bucle g src D (dists, prevs, [])"
  shows "cadena prevs src v p \<Longrightarrow> map_of dists v = Some (Finita dv) \<Longrightarrow>
         (\<forall>(a, b) \<in> set (aristas_camino p). peso_arista g a b \<noteq> None) \<and> peso_camino g p = dv"
proof (induction arbitrary: dv rule: cadena.induct)
  case cadena_origen
  with inv_bucleD(3)[OF inv] show ?case by (simp add: aristas_camino_def peso_camino_def)
next
  case (cadena_paso v u p)
  from inv_bucleD(10)[OF inv cadena_paso.prems cadena_paso.hyps(1)] cadena_paso.hyps(2)
  obtain du ady w where c: "map_of g u = Some ady" "(v, w) \<in> set ady"
    "map_of dists u = Some (Finita du)" "dv = du + w" by auto
  from c(1) have "(u, ady) \<in> set g" by (rule map_of_SomeD)
  with val have "distinct (map fst ady)" unfolding grafo_valido_def by fastforce
  with c(2) have "map_of ady v = Some w" by simp
  with c(1) have pa: "peso_arista g u v = Some w" by (simp add: peso_arista_def)
  from cadena_extremos[OF cadena_paso.hyps(3)] have p: "p \<noteq> []" "last p = u" by simp_all
  from cadena_paso.IH[OF c(3)] have ih: "\<forall>(a, b) \<in> set (aristas_camino p). peso_arista g a b \<noteq> None"
    "peso_camino g p = du" by simp_all
  have a: "aristas_camino (p @ [v]) = aristas_camino p @ [(u, v)]"
    using aristas_camino_snoc[OF p(1), of v] p(2) by simp
  show ?case using ih pa c(4) unfolding a peso_camino_def by auto
qed

lemma retroceder_cadena:
  "cadena prevs src v p \<Longrightarrow> retroceder prevs src (Some v) acc = Some (Inr (p @ acc))"
proof (induction arbitrary: acc rule: cadena.induct)
  case cadena_origen
  show ?case by (subst retroceder.simps) simp
next
  case (cadena_paso v u p)
  have "retroceder prevs src (Some v) acc = retroceder prevs src (Some u) (v # acc)"
    using cadena_paso.hyps(1,2) by (subst retroceder.simps) simp
  with cadena_paso.IH[of "v # acc"] show ?case by simp
qed

lemma reconstruir_cadena:
  assumes "cadena prevs src v p" and "map_of prevs v \<noteq> None"
  shows "reconstruir_camino prevs src v = Some (Inr p)"
proof -
  from cadena_extremos[OF assms(1)] obtain c cs where p: "p = c # cs" "c = src"
    by (cases p) auto
  from retroceder_cadena[OF assms(1), of "[]"] assms(2) p show ?thesis
    by (simp add: reconstruir_camino_def)
qed

text \<open>What a valid graph gives for one shipment.\<close>

lemma Dijkstra_final:
  assumes val: "grafo_valido g" and src: "map_of g src = Some ady"
  shows "\<exists>dists prevs. Dijkstra g src = Some (Inr (dists, prevs)) \<and>
           resultado_correcto g src dists prevs"
proof -
  from Dijkstra_total[OF val src] obtain dists prevs D where
    d: "Dijkstra g src = Some (Inr (dists, prevs))" and inv: "inv_bucle g src D (dists, prevs, [])"
    by blast
  note I = inv_bucleD[OF inv]
  have rel: "\<exists>dv. map_of dists v = Some (Finita dv) \<and> dv \<le> du + w"
    if "map_of g u = Some ady" "(v, w) \<in> set ady" "map_of dists u = Some (Finita du)"
    for u ady v w du
    using I(9)[OF inv_final_finitos[OF inv that(3)]] that by fastforce
  have cam: "\<exists>p. reconstruir_camino prevs src v = Some (Inr p) \<and> p \<noteq> [] \<and> hd p = src \<and>
               last p = v \<and> (\<forall>(a, b) \<in> set (aristas_camino p). peso_arista g a b \<noteq> None) \<and>
               peso_camino g p = dv"
    if a: "map_of dists v = Some (Finita dv)" for v dv
  proof -
    from I(9)[OF inv_final_finitos[OF inv a]] obtain p where p: "cadena prevs src v p" by blast
    have "v \<in> set (map fst prevs)" using map_of_clave[OF a] I(1,2) by simp
    then have "map_of prevs v \<noteq> None" by (simp add: map_of_eq_None_iff)
    from reconstruir_cadena[OF p this] cadena_extremos[OF p] cadena_peso[OF val inv p a]
    show ?thesis by blast
  qed
  have R: "\<forall>u ady v w du. map_of g u = Some ady \<longrightarrow> (v, w) \<in> set ady \<longrightarrow>
       map_of dists u = Some (Finita du) \<longrightarrow>
       (\<exists>dv. map_of dists v = Some (Finita dv) \<and> dv \<le> du + w)"
    using rel by blast
  have C: "\<forall>v dv. map_of dists v = Some (Finita dv) \<longrightarrow>
       (\<exists>p. reconstruir_camino prevs src v = Some (Inr p) \<and> p \<noteq> [] \<and> hd p = src \<and>
            last p = v \<and> (\<forall>(a, b) \<in> set (aristas_camino p). peso_arista g a b \<noteq> None) \<and>
            peso_camino g p = dv)"
    using cam by blast
  have "resultado_correcto g src dists prevs"
    unfolding resultado_correcto_def by (intro conjI I(1) I(2) I(3) R C)
  with d show ?thesis by blast
qed

lemma resultado_correctoD:
  assumes "resultado_correcto g src dists prevs"
  shows "map fst dists = map fst g" and "map fst prevs = map fst g"
    and "map_of dists src = Some (Finita 0)"
    and "\<And>u ady v w du. map_of g u = Some ady \<Longrightarrow> (v, w) \<in> set ady \<Longrightarrow>
           map_of dists u = Some (Finita du) \<Longrightarrow>
           \<exists>dv. map_of dists v = Some (Finita dv) \<and> dv \<le> du + w"
    and "\<And>v dv. map_of dists v = Some (Finita dv) \<Longrightarrow>
           \<exists>p. reconstruir_camino prevs src v = Some (Inr p) \<and> p \<noteq> [] \<and> hd p = src \<and>
               last p = v \<and> (\<forall>(a, b) \<in> set (aristas_camino p). peso_arista g a b \<noteq> None) \<and>
               peso_camino g p = dv"
  using assms unfolding resultado_correcto_def by blast+

lemma grafo_validoD:
  assumes "grafo_valido g" and "map_of g u = Some ady"
  shows "distinct (map fst ady)"
    and "\<And>v w. (v, w) \<in> set ady \<Longrightarrow> v \<in> fst ` set g"
    and "\<And>v w. (v, w) \<in> set ady \<Longrightarrow> 0 \<le> w"
proof -
  from assms(2) have "(u, ady) \<in> set g" by (rule map_of_SomeD)
  with assms(1) have a: "distinct (map fst ady) \<and> (\<forall>(v, w) \<in> set ady. v \<in> fst ` set g \<and> 0 \<le> w)"
    unfolding grafo_valido_def by blast
  from a show "distinct (map fst ady)" by simp
  from a show "\<And>v w. (v, w) \<in> set ady \<Longrightarrow> v \<in> fst ` set g" by blast
  from a show "\<And>v w. (v, w) \<in> set ady \<Longrightarrow> 0 \<le> w" by blast
qed

lemma clave_map_of: "x \<in> fst ` set al \<Longrightarrow> \<exists>y. map_of al x = Some y"
  by (cases "map_of al x") (simp_all add: map_of_eq_None_iff)

lemma grafo_ejemplo_valido: "grafo_valido (construir_grafo rutas_ejemplo)"
  by (rule construir_grafo_valido) (simp add: pesos_no_negativos_def rutas_ejemplo_def)


section \<open>The built graph, the unknown source and the example\<close>

lemma grafo_ejemplo:
  "construir_grafo rutas_ejemplo =
     [(''A'', [(''B'', 5), (''C'', 10)]), (''B'', [(''C'', 3), (''D'', 9)]),
      (''C'', [(''D'', 3 / 2)]), (''D'', [])]"
  by code_simp

text \<open>
  Claim C8.  Every node that appears in an edge of the list, as origin or as destination,
  is a key of the graph built from the list; a node that is the origin of no edge is a
  key too, with the empty adjacency.
\<close>

theorem construir_grafo_nodos:
  assumes "(ori, des, w) \<in> set rutas"
  shows "ori \<in> fst ` set (construir_grafo rutas) \<and> des \<in> fst ` set (construir_grafo rutas) \<and>
         ((\<forall>(a, b, c) \<in> set rutas. a \<noteq> des) \<longrightarrow> map_of (construir_grafo rutas) des = Some [])"
proof -
  obtain g ns where f: "fold agregar_ruta rutas ([], []) = (g, ns)"
    by (cases "fold agregar_ruta rutas ([], [])")
  let ?g = "fold (\<lambda>n g. setdefault n [] g) ns g"
  have cg: "construir_grafo rutas = ?g" by (simp add: construir_grafo_def f)
  have "inv_construir [] ([], [])" by (simp add: inv_construir_def)
  from fold_agregar_inv[OF this, of rutas] f have "inv_construir (rev rutas) (g, ns)" by simp
  with assms have en: "ori \<in> set ns" "des \<in> set ns" by (auto simp: inv_construir_def)
  have k: "\<And>n. n \<in> set ns \<Longrightarrow> n \<in> fst ` set ?g"
  proof -
    fix n assume "n \<in> set ns"
    then have "map_of ?g n \<noteq> None" by (simp add: fold_setdefault_map_of split: option.splits)
    then show "n \<in> fst ` set ?g" by (simp add: map_of_eq_None_iff)
  qed
  have s: "(\<forall>(a, b, c) \<in> set rutas. a \<noteq> des) \<longrightarrow> map_of ?g des = Some []"
  proof
    assume "\<forall>(a, b, c) \<in> set rutas. a \<noteq> des"
    then have "des \<notin> (\<lambda>(a, b, c). a) ` set rutas" by auto
    with fold_agregar_claves[of rutas "([], [])"] f have "des \<notin> fst ` set g" by simp
    then have "map_of g des = None" by (simp add: map_of_eq_None_iff)
    with en(2) show "map_of ?g des = Some []" by (simp add: fold_setdefault_map_of)
  qed
  from k[OF en(1)] k[OF en(2)] s show ?thesis unfolding cg by simp
qed

theorem construir_grafo_nodos_witness:
  "(''C'', ''D'', 3 / 2) \<in> set rutas_ejemplo \<and>
   ''C'' \<in> fst ` set (construir_grafo rutas_ejemplo) \<and>
   ''D'' \<in> fst ` set (construir_grafo rutas_ejemplo) \<and>
   ''D'' \<notin> set (map fst rutas_ejemplo) \<and>
   map_of (construir_grafo rutas_ejemplo) ''D'' = Some []"
proof -
  have h: "(''C'', ''D'', 3 / 2) \<in> set rutas_ejemplo" by (simp add: rutas_ejemplo_def)
  have s: "\<forall>(a, b, c) \<in> set rutas_ejemplo. a \<noteq> ''D''" by (simp add: rutas_ejemplo_def)
  have n: "''D'' \<notin> set (map fst rutas_ejemplo)" by (simp add: rutas_ejemplo_def)
  from construir_grafo_nodos[OF h] h s n show ?thesis by blast
qed

text \<open>
  Claim C4.  When the source is not a key of the graph, \<open>Dijkstra\<close> returns without an
  error, every node of the graph has the distance \<open>inf\<close> and the predecessor \<open>None\<close>.
\<close>

theorem Dijkstra_origen_desconocido:
  assumes "map_of g src = None"
  shows "\<exists>dists prevs. Dijkstra g src = Some (Inr (dists, prevs)) \<and>
           (\<forall>n \<in> fst ` set g. map_of dists n = Some Infinito \<and> map_of prevs n = Some None)"
  using assms by (simp add: Dijkstra_def map_of_constante)

theorem Dijkstra_origen_desconocido_witness:
  "map_of (construir_grafo rutas_ejemplo) ''Z'' = None \<and>
   (\<exists>dists prevs. Dijkstra (construir_grafo rutas_ejemplo) ''Z'' = Some (Inr (dists, prevs)) \<and>
      (\<forall>n \<in> fst ` set (construir_grafo rutas_ejemplo).
         map_of dists n = Some Infinito \<and> map_of prevs n = Some None))"
proof -
  have h: "map_of (construir_grafo rutas_ejemplo) ''Z'' = None" by code_simp
  from Dijkstra_origen_desconocido[OF h] h show ?thesis by blast
qed

text \<open>
  Claim C3.  On the graph with the edges A to B of 5, A to C of 10, B to C of 3, C to D of
  1.5 and B to D of 9, the batch (1, A, D), (2, B, A), (3, A, C), (4, Z, A) gives, in this
  order: shipment 1 resolved with distance 9.5 along A, B, C, D; shipment 2 unreachable;
  shipment 3 resolved with distance 8 along A, B, C; shipment 4 with an unknown origin.
\<close>

theorem escenario_concreto:
  "procesar_envios (construir_grafo rutas_ejemplo) envios_ejemplo =
     Some (Inr
       [\<lparr>r_id = 1, r_origen = ''A'', r_destino = ''D'', r_distancia = Some (Finita (19 / 2)),
         r_camino = Some [''A'', ''B'', ''C'', ''D''],
         r_msg = MsgRuta 1 ''A'' ''D'' (Finita (19 / 2)) [''A'', ''B'', ''C'', ''D'']\<rparr>,
        \<lparr>r_id = 2, r_origen = ''B'', r_destino = ''A'', r_distancia = None, r_camino = None,
         r_msg = MsgNoEncontrada 2 ''B'' ''A''\<rparr>,
        \<lparr>r_id = 3, r_origen = ''A'', r_destino = ''C'', r_distancia = Some (Finita 8),
         r_camino = Some [''A'', ''B'', ''C''],
         r_msg = MsgRuta 3 ''A'' ''C'' (Finita 8) [''A'', ''B'', ''C'']\<rparr>,
        \<lparr>r_id = 4, r_origen = ''Z'', r_destino = ''A'', r_distancia = None, r_camino = None,
         r_msg = MsgOrigenDesconocido 4 ''Z'' ''A''\<rparr>]) \<and>
   map estatus_de (projr (the (procesar_envios (construir_grafo rutas_ejemplo) envios_ejemplo))) =
     [RESOLVED, UNREACHABLE, RESOLVED, ORIGIN_UNKNOWN]"
  by code_simp

section \<open>Properties of Dijkstra\<close>

text \<open>
  Claim C2.  For a graph with no negative weight and a source that is one of its keys,
  \<open>Dijkstra\<close> returns, and in the distances returned no edge of the graph can still
  lower a distance: for every edge from \<open>u\<close> to \<open>v\<close> of weight \<open>w\<close>, the distance of \<open>v\<close>
  is at most the distance of \<open>u\<close> plus \<open>w\<close>.
\<close>

theorem Dijkstra_sin_arista_mejorable:
  assumes "grafo_valido g" and "src \<in> fst ` set g"
  shows "\<exists>dists prevs. Dijkstra g src = Some (Inr (dists, prevs)) \<and>
           (\<forall>u ady v w. map_of g u = Some ady \<longrightarrow> map_of ady v = Some w \<longrightarrow>
              (\<exists>du dv. map_of dists u = Some du \<and> map_of dists v = Some dv \<and>
                 menor_igual dv (suma_dist du w)))"
proof -
  from clave_map_of[OF assms(2)] obtain a where a: "map_of g src = Some a" by blast
  from Dijkstra_final[OF assms(1) a] obtain dists prevs where
    d: "Dijkstra g src = Some (Inr (dists, prevs))" and rc: "resultado_correcto g src dists prevs"
    by blast
  note R = resultado_correctoD[OF rc]
  have ks: "fst ` set dists = fst ` set g" using arg_cong[OF R(1), of set] by simp
  have "\<forall>u ady v w. map_of g u = Some ady \<longrightarrow> map_of ady v = Some w \<longrightarrow>
              (\<exists>du dv. map_of dists u = Some du \<and> map_of dists v = Some dv \<and>
                 menor_igual dv (suma_dist du w))"
  proof (intro allI impI)
    fix u ady v w
    assume e: "map_of g u = Some ady" "map_of ady v = Some w"
    from e(1) have ug: "(u, ady) \<in> set g" by (rule map_of_SomeD)
    from e(2) have vw: "(v, w) \<in> set ady" by (rule map_of_SomeD)
    from ug have "u \<in> fst ` set dists" unfolding ks by force
    from clave_map_of[OF this] obtain du where du: "map_of dists u = Some du" by blast
    from grafo_validoD(2)[OF assms(1) e(1) vw] have "v \<in> fst ` set dists" unfolding ks .
    from clave_map_of[OF this] obtain dv where dv: "map_of dists v = Some dv" by blast
    show "\<exists>du dv. map_of dists u = Some du \<and> map_of dists v = Some dv \<and>
                 menor_igual dv (suma_dist du w)"
    proof (cases du)
      case (Finita x)
      from R(4)[OF e(1) vw du[unfolded Finita]] obtain y where
        "map_of dists v = Some (Finita y)" "y \<le> x + w" by blast
      with Finita du show ?thesis by simp
    next
      case Infinito
      with du dv show ?thesis by simp
    qed
  qed
  with d show ?thesis by blast
qed

theorem Dijkstra_sin_arista_mejorable_witness:
  "grafo_valido (construir_grafo rutas_ejemplo) \<and>
   ''A'' \<in> fst ` set (construir_grafo rutas_ejemplo) \<and>
   (\<exists>dists prevs. Dijkstra (construir_grafo rutas_ejemplo) ''A'' = Some (Inr (dists, prevs)) \<and>
      (\<forall>u ady v w. map_of (construir_grafo rutas_ejemplo) u = Some ady \<longrightarrow>
         map_of ady v = Some w \<longrightarrow>
         (\<exists>du dv. map_of dists u = Some du \<and> map_of dists v = Some dv \<and>
            menor_igual dv (suma_dist du w))))"
proof -
  have k: "''A'' \<in> fst ` set (construir_grafo rutas_ejemplo)" by code_simp
  show ?thesis
    by (intro conjI grafo_ejemplo_valido k
        Dijkstra_sin_arista_mejorable[OF grafo_ejemplo_valido k])
qed

text \<open>
  Claim C6, as amended.  For a graph with no negative weight and a source that is one of
  its keys, \<open>Dijkstra\<close> returns a distance map in which the source is at distance 0.
\<close>

theorem Dijkstra_distancia_origen:
  assumes "grafo_valido g" and "src \<in> fst ` set g"
  shows "\<exists>dists prevs. Dijkstra g src = Some (Inr (dists, prevs)) \<and>
           map_of dists src = Some (Finita 0)"
proof -
  from clave_map_of[OF assms(2)] obtain a where a: "map_of g src = Some a" by blast
  from Dijkstra_final[OF assms(1) a] obtain dists prevs where
    d: "Dijkstra g src = Some (Inr (dists, prevs))" and rc: "resultado_correcto g src dists prevs"
    by blast
  from d resultado_correctoD(3)[OF rc]
  have "Dijkstra g src = Some (Inr (dists, prevs)) \<and> map_of dists src = Some (Finita 0)" ..
  then show ?thesis by blast
qed

theorem Dijkstra_distancia_origen_witness:
  "grafo_valido (construir_grafo rutas_ejemplo) \<and>
   ''B'' \<in> fst ` set (construir_grafo rutas_ejemplo) \<and>
   (\<exists>dists prevs. Dijkstra (construir_grafo rutas_ejemplo) ''B'' = Some (Inr (dists, prevs)) \<and>
      map_of dists ''B'' = Some (Finita 0))"
proof -
  have k: "''B'' \<in> fst ` set (construir_grafo rutas_ejemplo)" by code_simp
  show ?thesis
    by (intro conjI grafo_ejemplo_valido k
        Dijkstra_distancia_origen[OF grafo_ejemplo_valido k])
qed

text \<open>
  Claim C6 as stated fails for a source that is not a key: the distance map returned has
  no entry for it.
\<close>

theorem Dijkstra_distancia_origen_contraejemplo:
  "Dijkstra (construir_grafo rutas_ejemplo) ''Z'' =
     Some (Inr ([(''A'', Infinito), (''B'', Infinito), (''C'', Infinito), (''D'', Infinito)],
                [(''A'', None), (''B'', None), (''C'', None), (''D'', None)])) \<and>
   map_of [(''A'', Infinito), (''B'', Infinito), (''C'', Infinito), (''D'', Infinito)] ''Z'' = None"
  by code_simp

lemma cuerpo_claves:
  assumes "cuerpo g t (dists, prevs, heap) = Inr (dists', prevs', heap')"
    and "map fst prevs = map fst dists"
  shows "map fst dists' = map fst dists \<and> map fst prevs' = map fst dists"
proof -
  obtain d u where t: "t = (d, u)" by (cases t)
  from assms show ?thesis
    unfolding cuerpo_def t
    by (auto split: option.splits if_splits dest: relajar_claves[OF _ assms(2)])
qed

lemma bucle_claves:
  assumes "bucle g s = Some r"
  shows "\<forall>dists prevs heap dists' prevs'. s = (dists, prevs, heap) \<longrightarrow>
           r = Inr (dists', prevs') \<longrightarrow> map fst prevs = map fst dists \<longrightarrow>
           map fst dists' = map fst dists \<and> map fst prevs' = map fst dists"
  using assms
proof (induction rule: bucle.raw_induct[rotated 1, consumes 1])
  case (1 bucle' g s r)
  show ?case
  proof (intro allI impI)
    fix dists prevs heap dists' prevs'
    assume s: "s = (dists, prevs, heap)" and r: "r = Inr (dists', prevs')"
      and k: "map fst prevs = map fst dists"
    show "map fst dists' = map fst dists \<and> map fst prevs' = map fst dists"
    proof (cases "heappop heap")
      case None
      with 1(2) s r k show ?thesis by simp
    next
      case (Some a)
      obtain t h1 where a: "a = (t, h1)" by (cases a)
      show ?thesis
      proof (cases "cuerpo g t (dists, prevs, h1)")
        case (Inl e)
        with 1(2) s r Some a show ?thesis by simp
      next
        case (Inr s')
        obtain d1 p1 h2 where s': "s' = (d1, p1, h2)" by (cases s')
        from cuerpo_claves[OF Inr[unfolded s'] k] have k1: "map fst d1 = map fst dists"
          "map fst p1 = map fst dists" by simp_all
        from 1(2) s Some a Inr have "bucle' g s' = Some r" by simp
        from 1(1)[OF this] s' r k1 show ?thesis by simp
      qed
    qed
  qed
qed

text \<open>
  Claim C10.  Whatever the graph and the source, the two maps that \<open>Dijkstra\<close> returns
  have exactly the keys of the graph, in the same order; and on a graph of the data model
  it does return, for a known and for an unknown source.
\<close>

theorem Dijkstra_claves:
  "(\<forall>dists prevs. Dijkstra g src = Some (Inr (dists, prevs)) \<longrightarrow>
      map fst dists = map fst g \<and> map fst prevs = map fst g) \<and>
   (grafo_valido g \<longrightarrow> (\<exists>dists prevs. Dijkstra g src = Some (Inr (dists, prevs))))"
proof
  show "\<forall>dists prevs. Dijkstra g src = Some (Inr (dists, prevs)) \<longrightarrow>
      map fst dists = map fst g \<and> map fst prevs = map fst g"
  proof (intro allI impI)
    fix dists prevs assume d: "Dijkstra g src = Some (Inr (dists, prevs))"
    show "map fst dists = map fst g \<and> map fst prevs = map fst g"
    proof (cases "map_of g src")
      case None
      with d show ?thesis by (auto simp: Dijkstra_def map_constante_claves)
    next
      case (Some a)
      then have sk: "src \<in> fst ` set g" by (metis map_of_clave set_map)
      let ?d = "AList.update src (Finita 0) (map (\<lambda>(n, _). (n, Infinito)) g)"
      let ?p = "map (\<lambda>(n, _). (n, None :: nodo option)) g"
      from d Some have b: "bucle g (?d, ?p, [(0, src)]) = Some (Inr (dists, prevs))"
        by (simp add: Dijkstra_def)
      have k: "map fst ?d = map fst g" using sk by (rule claves_iniciales)
      have "map fst ?p = map fst ?d" unfolding k by (rule map_constante_claves)
      with bucle_claves[OF b] k show ?thesis by simp
    qed
  qed
  show "grafo_valido g \<longrightarrow> (\<exists>dists prevs. Dijkstra g src = Some (Inr (dists, prevs)))"
  proof
    assume val: "grafo_valido g"
    show "\<exists>dists prevs. Dijkstra g src = Some (Inr (dists, prevs))"
    proof (cases "map_of g src")
      case None
      then show ?thesis by (simp add: Dijkstra_def)
    next
      case (Some a)
      from Dijkstra_total[OF val Some] show ?thesis by blast
    qed
  qed
qed

theorem Dijkstra_claves_witness:
  "grafo_valido (construir_grafo rutas_ejemplo) \<and>
   (\<exists>dists prevs. Dijkstra (construir_grafo rutas_ejemplo) ''A'' = Some (Inr (dists, prevs)) \<and>
      map fst dists = map fst (construir_grafo rutas_ejemplo) \<and>
      map fst prevs = map fst (construir_grafo rutas_ejemplo))"
proof -
  note c = Dijkstra_claves[of "construir_grafo rutas_ejemplo" "''A''"]
  from c[THEN conjunct2, rule_format, OF grafo_ejemplo_valido] obtain dists prevs where
    d: "Dijkstra (construir_grafo rutas_ejemplo) ''A'' = Some (Inr (dists, prevs))" by blast
  from c[THEN conjunct1, rule_format, OF d] d
  have "\<exists>dists prevs. Dijkstra (construir_grafo rutas_ejemplo) ''A'' = Some (Inr (dists, prevs)) \<and>
      map fst dists = map fst (construir_grafo rutas_ejemplo) \<and>
      map fst prevs = map fst (construir_grafo rutas_ejemplo)" by blast
  then show ?thesis by (intro conjI grafo_ejemplo_valido)
qed

section \<open>One shipment and the batch\<close>

lemma reconstruir_origen:
  assumes "map_of prevs src \<noteq> None"
  shows "reconstruir_camino prevs src src = Some (Inr [src])"
proof -
  have "retroceder prevs src (Some src) [] = Some (Inr [src])"
    by (subst retroceder.simps) simp
  with assms show ?thesis by (simp add: reconstruir_camino_def)
qed

lemma procesar_envio_valido:
  assumes val: "grafo_valido g"
  shows "\<exists>r. procesar_envio g (i, ori, des) = Some (Inr r) \<and>
           r_id r = i \<and> r_origen r = ori \<and> r_destino r = des \<and>
           (estatus_de r = RESOLVED \<longrightarrow>
              (\<exists>dv p. r_distancia r = Some (Finita dv) \<and> r_camino r = Some p \<and> p \<noteq> [] \<and>
                 hd p = ori \<and> last p = des \<and>
                 (\<forall>(a, b) \<in> set (aristas_camino p). peso_arista g a b \<noteq> None) \<and>
                 peso_camino g p = dv)) \<and>
           (ori = des \<longrightarrow> map_of g ori \<noteq> None \<longrightarrow>
              estatus_de r = RESOLVED \<and> r_distancia r = Some (Finita 0) \<and>
              r_camino r = Some [ori])"
proof (cases "map_of g ori")
  case None
  let ?r = "\<lparr>r_id = i, r_origen = ori, r_destino = des, r_distancia = None, r_camino = None,
             r_msg = MsgOrigenDesconocido i ori des\<rparr>"
  have "procesar_envio g (i, ori, des) = Some (Inr ?r)"
    using None by (simp add: procesar_envio_def Dijkstra_def)
  moreover have "estatus_de ?r \<noteq> RESOLVED" by (simp add: estatus_de_def)
  ultimately show ?thesis using None by (intro exI[of _ ?r]) auto
next
  case (Some ady)
  from Dijkstra_final[OF val Some] obtain dists prevs where
    d: "Dijkstra g ori = Some (Inr (dists, prevs))" and rc: "resultado_correcto g ori dists prevs"
    by blast
  note R = resultado_correctoD[OF rc]
  show ?thesis
  proof (cases "map_of dists des = None \<or> map_of dists des = Some Infinito")
    case True
    let ?r = "\<lparr>r_id = i, r_origen = ori, r_destino = des, r_distancia = None, r_camino = None,
               r_msg = MsgNoEncontrada i ori des\<rparr>"
    have p: "procesar_envio g (i, ori, des) = Some (Inr ?r)"
      using Some d True by (simp add: procesar_envio_def)
    have e: "estatus_de ?r \<noteq> RESOLVED" by (simp add: estatus_de_def)
    have "ori \<noteq> des" using True R(3) by auto
    with p e show ?thesis by (intro exI[of _ ?r]) simp
  next
    case False
    then obtain dv where dv: "map_of dists des = Some (Finita dv)"
      by (cases "map_of dists des") (auto intro: valor_dist.exhaust)
    from R(5)[OF dv] obtain p where p: "reconstruir_camino prevs ori des = Some (Inr p)"
      "p \<noteq> []" "hd p = ori" "last p = des"
      "\<forall>(a, b) \<in> set (aristas_camino p). peso_arista g a b \<noteq> None" "peso_camino g p = dv"
      by blast
    let ?r = "\<lparr>r_id = i, r_origen = ori, r_destino = des, r_distancia = Some (Finita dv),
               r_camino = Some p, r_msg = MsgRuta i ori des (Finita dv) p\<rparr>"
    have pe: "procesar_envio g (i, ori, des) = Some (Inr ?r)"
      using Some d dv p(1) by (simp add: procesar_envio_def)
    have e: "estatus_de ?r = RESOLVED" by (simp add: estatus_de_def)
    have o: "dv = 0 \<and> p = [ori]" if "ori = des"
    proof -
      have "des \<in> set (map fst prevs)" using map_of_clave[OF dv] R(1,2) by simp
      then have "map_of prevs des \<noteq> None" by (simp add: map_of_eq_None_iff)
      from reconstruir_origen[OF this] p(1) that R(3) dv show ?thesis by simp
    qed
    have 1: "\<exists>dv' p'. r_distancia ?r = Some (Finita dv') \<and> r_camino ?r = Some p' \<and> p' \<noteq> [] \<and>
                 hd p' = ori \<and> last p' = des \<and>
                 (\<forall>(a, b) \<in> set (aristas_camino p'). peso_arista g a b \<noteq> None) \<and>
                 peso_camino g p' = dv'"
      using p(2-6) by (intro exI[of _ dv] exI[of _ p]) simp
    have 2: "ori = des \<longrightarrow> map_of g ori \<noteq> None \<longrightarrow>
              estatus_de ?r = RESOLVED \<and> r_distancia ?r = Some (Finita 0) \<and>
              r_camino ?r = Some [ori]"
      using o by (auto simp: estatus_de_def)
    show ?thesis
      apply (rule exI[of _ ?r])
      apply (intro conjI pe 2)
         apply simp
        apply simp
       apply simp
      using 1 apply blast
      done
  qed
qed

lemma procesar_desde_map:
  assumes "\<forall>e \<in> set envios. \<exists>r. procesar_envio g e = Some (Inr r)"
  shows "procesar_desde g envios acc =
           Some (Inr (acc @ map (\<lambda>e. projr (the (procesar_envio g e))) envios))"
  using assms
proof (induction envios arbitrary: acc)
  case Nil
  show ?case by simp
next
  case (Cons e envios)
  from Cons.prems obtain r where r: "procesar_envio g e = Some (Inr r)" by auto
  from Cons.prems have "\<forall>e \<in> set envios. \<exists>r. procesar_envio g e = Some (Inr r)" by simp
  from Cons.IH[OF this, of "acc @ [r]"] r show ?case by simp
qed

lemma procesar_envios_valido:
  assumes val: "grafo_valido g"
  shows "procesar_envios g envios =
           Some (Inr (map (\<lambda>e. projr (the (procesar_envio g e))) envios))"
proof -
  have "\<forall>e \<in> set envios. \<exists>r. procesar_envio g e = Some (Inr r)"
  proof
    fix e assume "e \<in> set envios"
    obtain i ori des where e: "e = (i, ori, des)" by (cases e)
    from procesar_envio_valido[OF val, of i ori des] show "\<exists>r. procesar_envio g e = Some (Inr r)"
      unfolding e by blast
  qed
  from procesar_desde_map[OF this, of "[]"] show ?thesis by (simp add: procesar_envios_def)
qed

section \<open>What every returned result satisfies\<close>

lemma relajar_arbol:
  assumes rel: "relajar u d ady (dists, prevs, heap) = Inr (dists', prevs', heap')"
    and a: "arbol_prev src dists prevs" and c: "cola_finita dists heap"
    and du: "map_of dists u = Some (Finita du)"
  shows "arbol_prev src dists' prevs' \<and> cola_finita dists' heap'"
proof
  note mono = relajar_mono[OF rel]
  from mono[OF du] obtain du' where du': "map_of dists' u = Some (Finita du')" by blast
  show "arbol_prev src dists' prevs'"
    unfolding arbol_prev_def
  proof (intro allI impI)
    fix v dv assume v: "map_of dists' v = Some (Finita dv)" "v \<noteq> src"
    from relajar_nodo[OF rel, of v]
    show "\<exists>u du. map_of prevs' v = Some (Some u) \<and> map_of dists' u = Some (Finita du)"
    proof
      assume e: "map_of dists' v = map_of dists v \<and> map_of prevs' v = map_of prevs v"
      with v a obtain u0 du0 where "map_of prevs v = Some (Some u0)"
        "map_of dists u0 = Some (Finita du0)" unfolding arbol_prev_def by metis
      with mono[of u0 du0] e show ?thesis by auto
    next
      assume "\<exists>w old. (v, w) \<in> set ady \<and> map_of dists v = Some old \<and> mejora (d + w) old \<and>
        map_of dists' v = Some (Finita (d + w)) \<and> map_of prevs' v = Some (Some u) \<and>
        (d + w, v) \<in> set heap'"
      with du' show ?thesis by auto
    qed
  qed
  from relajar_cola[OF rel] obtain nuevos where n: "heap' = heap @ nuevos"
    "\<forall>(a, x) \<in> set nuevos. \<exists>w. (x, w) \<in> set ady \<and> a = d + w \<and>
        (\<exists>dx. map_of dists' x = Some (Finita dx) \<and> dx \<le> a)" by blast
  show "cola_finita dists' heap'"
    unfolding cola_finita_def
  proof (clarify)
    fix a x assume "(a, x) \<in> set heap'"
    with n(1) have "(a, x) \<in> set heap \<or> (a, x) \<in> set nuevos" by auto
    then show "\<exists>dx. map_of dists' x = Some (Finita dx)"
    proof
      assume "(a, x) \<in> set heap"
      with c obtain dx where "map_of dists x = Some (Finita dx)"
        unfolding cola_finita_def by auto
      from mono[OF this] show ?thesis by blast
    next
      assume "(a, x) \<in> set nuevos"
      with n(2) show ?thesis by fastforce
    qed
  qed
qed

lemma cuerpo_arbol:
  assumes b: "cuerpo g (d, u) (dists, prevs, heap) = Inr (dists', prevs', heap')"
    and a: "arbol_prev src dists prevs" and c: "cola_finita dists heap"
    and du: "map_of dists u = Some (Finita du)"
  shows "arbol_prev src dists' prevs' \<and> cola_finita dists' heap'"
proof (cases "du < d")
  case True
  with b du have "dists' = dists" "prevs' = prevs" "heap' = heap" by (simp_all add: cuerpo_def)
  with a c show ?thesis by simp
next
  case False
  with b du obtain ady where "relajar u d ady (dists, prevs, heap) = Inr (dists', prevs', heap')"
    by (auto simp: cuerpo_def split: option.splits)
  from relajar_arbol[OF this a c du] show ?thesis .
qed

lemma bucle_arbol:
  assumes "bucle g s = Some r"
  shows "\<forall>dists prevs heap dists' prevs'. s = (dists, prevs, heap) \<longrightarrow>
           r = Inr (dists', prevs') \<longrightarrow> arbol_prev src dists prevs \<longrightarrow>
           cola_finita dists heap \<longrightarrow> arbol_prev src dists' prevs'"
  using assms
proof (induction rule: bucle.raw_induct[rotated 1, consumes 1])
  case (1 bucle' g s r)
  show ?case
  proof (intro allI impI)
    fix dists prevs heap dists' prevs'
    assume s: "s = (dists, prevs, heap)" and r: "r = Inr (dists', prevs')"
      and a: "arbol_prev src dists prevs" and c: "cola_finita dists heap"
    show "arbol_prev src dists' prevs'"
    proof (cases "heappop heap")
      case None
      with 1(2) s r a show ?thesis by simp
    next
      case (Some x)
      obtain d u h1 where x: "x = ((d, u), h1)" by (cases x) auto
      from Some x have pop: "heappop heap = Some ((d, u), h1)" by simp
      note P = heappop_SomeD[OF pop]
      from P(1) c obtain du where du: "map_of dists u = Some (Finita du)"
        unfolding cola_finita_def by auto
      have c1: "cola_finita dists h1"
        using c set_remove1_subset[of "(d, u)" heap] unfolding cola_finita_def P(2) by blast
      show ?thesis
      proof (cases "cuerpo g (d, u) (dists, prevs, h1)")
        case (Inl e)
        with 1(2) s r pop show ?thesis by simp
      next
        case (Inr s')
        obtain d1 p1 h2 where s': "s' = (d1, p1, h2)" by (cases s')
        from cuerpo_arbol[OF Inr[unfolded s'] a c1 du]
        have k1: "arbol_prev src d1 p1" "cola_finita d1 h2" by simp_all
        from 1(2) s pop Inr have "bucle' g s' = Some r" by simp
        from 1(1)[OF this] s' r k1 show ?thesis by simp
      qed
    qed
  qed
qed

lemma Dijkstra_arbol:
  assumes d: "Dijkstra g src = Some (Inr (dists, prevs))" and k: "map_of g src = Some ady"
  shows "arbol_prev src dists prevs \<and> map fst prevs = map fst dists"
proof -
  let ?d = "AList.update src (Finita 0) (map (\<lambda>(n, _). (n, Infinito)) g)"
  let ?p = "map (\<lambda>(n, _). (n, None :: nodo option)) g"
  from d k have b: "bucle g (?d, ?p, [(0, src)]) = Some (Inr (dists, prevs))"
    by (simp add: Dijkstra_def)
  have m: "map_of ?d x = (if x = src then Some (Finita 0)
             else if x \<in> fst ` set g then Some Infinito else None)" for x
    by (simp add: update_conv' map_of_constante)
  have a0: "arbol_prev src ?d ?p" unfolding arbol_prev_def by (auto simp: m split: if_splits)
  have c0: "cola_finita ?d [(0, src)]" unfolding cola_finita_def by (simp add: m)
  from bucle_arbol[OF b, of src] a0 c0 have 1: "arbol_prev src dists prevs" by blast
  from k have sk: "src \<in> fst ` set g" by (metis map_of_clave set_map)
  have kd: "map fst ?d = map fst g" using sk by (rule claves_iniciales)
  have "map fst ?p = map fst ?d" unfolding kd by (rule map_constante_claves)
  with bucle_claves[OF b] have "map fst prevs = map fst dists" by simp
  with 1 show ?thesis by simp
qed

lemma retroceder_parcial:
  assumes "retroceder prevs src u acc = Some y"
  shows "arbol_prev src dists prevs \<longrightarrow>
         (\<forall>x dx. u = Some x \<longrightarrow> map_of dists x = Some (Finita dx) \<longrightarrow> (\<exists>c. y = Inr (src # c)))"
  using assms
proof (induction rule: retroceder.raw_induct[rotated 1, consumes 1])
  case (1 retro prevs src u acc y)
  show ?case
  proof (intro allI impI)
    fix x dx assume a: "arbol_prev src dists prevs" and u: "u = Some x"
      and dx: "map_of dists x = Some (Finita dx)"
    show "\<exists>c. y = Inr (src # c)"
    proof (cases "x = src")
      case True
      with 1(2) u show ?thesis by auto
    next
      case False
      with a dx obtain u0 du0 where p: "map_of prevs x = Some (Some u0)"
        "map_of dists u0 = Some (Finita du0)" unfolding arbol_prev_def by metis
      with 1(2) u False have "retro prevs src (Some u0) (x # acc) = Some y" by simp
      from 1(1)[OF this] a p(2) show ?thesis by blast
    qed
  qed
qed

lemma reconstruir_parcial:
  assumes r: "reconstruir_camino prevs src des = Some (Inr p)"
    and a: "arbol_prev src dists prevs" and k: "map fst prevs = map fst dists"
    and d: "map_of dists des = Some (Finita dv)"
  shows "p \<noteq> []"
proof -
  have "des \<in> set (map fst prevs)" using map_of_clave[OF d] k by simp
  then have n: "map_of prevs des \<noteq> None" by (simp add: map_of_eq_None_iff)
  with r obtain y where y: "retroceder prevs src (Some des) [] = Some y"
    by (cases "retroceder prevs src (Some des) []") (auto simp: reconstruir_camino_def)
  from retroceder_parcial[OF y, of dists] a d obtain c where "y = Inr (src # c)" by blast
  with r n y show ?thesis by (auto simp: reconstruir_camino_def)
qed

lemma procesar_envio_campos:
  assumes "procesar_envio g (i, ori, des) = Some (Inr r)"
  shows "r_id r = i \<and> r_origen r = ori \<and> r_destino r = des"
  using assms
  by (auto simp: procesar_envio_def split: option.splits sum.splits if_splits)

lemma procesar_envio_parcial:
  assumes pe: "procesar_envio g (i, ori, des) = Some (Inr r)" and res: "estatus_de r = RESOLVED"
  shows "\<exists>p. r_camino r = Some p \<and> p \<noteq> []"
proof -
  from pe obtain dists prevs where d: "Dijkstra g ori = Some (Inr (dists, prevs))"
    by (auto simp: procesar_envio_def split: option.splits sum.splits)
  have k: "map_of g ori \<noteq> None"
  proof
    assume "map_of g ori = None"
    with pe d res show False by (auto simp: procesar_envio_def estatus_de_def)
  qed
  then obtain ady where ady: "map_of g ori = Some ady" by auto
  have "\<not> (map_of dists des = None \<or> map_of dists des = Some Infinito)"
  proof
    assume "map_of dists des = None \<or> map_of dists des = Some Infinito"
    with pe d k res show False by (auto simp: procesar_envio_def estatus_de_def)
  qed
  then obtain dv where dv: "map_of dists des = Some (Finita dv)"
    by (cases "map_of dists des") (auto intro: valor_dist.exhaust)
  from pe d ady dv obtain p where p: "reconstruir_camino prevs ori des = Some (Inr p)"
    "r_camino r = Some p"
    by (auto simp: procesar_envio_def split: option.splits sum.splits)
  from Dijkstra_arbol[OF d ady] have "arbol_prev ori dists prevs" "map fst prevs = map fst dists"
    by simp_all
  from reconstruir_parcial[OF p(1) this dv] p(2) show ?thesis by simp
qed

lemma procesar_desde_parcial:
  "procesar_desde g envios acc = Some (Inr rs) \<Longrightarrow>
   \<exists>nuevos. rs = acc @ nuevos \<and>
     list_all2 (\<lambda>e r. procesar_envio g e = Some (Inr r)) envios nuevos"
proof (induction envios arbitrary: acc)
  case Nil
  then show ?case by simp
next
  case (Cons e envios)
  from Cons.prems obtain r where r: "procesar_envio g e = Some (Inr r)"
    "procesar_desde g envios (acc @ [r]) = Some (Inr rs)"
    by (auto split: option.splits sum.splits)
  from Cons.IH[OF r(2)] obtain nuevos where "rs = (acc @ [r]) @ nuevos"
    "list_all2 (\<lambda>e r. procesar_envio g e = Some (Inr r)) envios nuevos" by blast
  with r(1) show ?case by (intro exI[of _ "r # nuevos"]) simp
qed

lemma procesar_envios_parcial:
  assumes "procesar_envios g envios = Some (Inr rs)"
  shows "list_all2 (\<lambda>e r. procesar_envio g e = Some (Inr r)) envios rs"
  using procesar_desde_parcial[of g envios "[]" rs] assms by (simp add: procesar_envios_def)

section \<open>Properties of the batch\<close>

lemma resultado_envio:
  assumes val: "grafo_valido g"
  obtains r where "procesar_envio g (i, ori, des) = Some (Inr r)"
    and "projr (the (procesar_envio g (i, ori, des))) = r"
    and "r_id r = i" and "r_origen r = ori" and "r_destino r = des"
    and "estatus_de r = RESOLVED \<Longrightarrow>
              (\<exists>dv p. r_distancia r = Some (Finita dv) \<and> r_camino r = Some p \<and> p \<noteq> [] \<and>
                 hd p = ori \<and> last p = des \<and>
                 (\<forall>(a, b) \<in> set (aristas_camino p). peso_arista g a b \<noteq> None) \<and>
                 peso_camino g p = dv)"
    and "ori = des \<Longrightarrow> map_of g ori \<noteq> None \<Longrightarrow>
              estatus_de r = RESOLVED \<and> r_distancia r = Some (Finita 0) \<and>
              r_camino r = Some [ori]"
proof -
  from procesar_envio_valido[OF val, of i ori des] obtain r where
    r: "procesar_envio g (i, ori, des) = Some (Inr r) \<and>
           r_id r = i \<and> r_origen r = ori \<and> r_destino r = des \<and>
           (estatus_de r = RESOLVED \<longrightarrow>
              (\<exists>dv p. r_distancia r = Some (Finita dv) \<and> r_camino r = Some p \<and> p \<noteq> [] \<and>
                 hd p = ori \<and> last p = des \<and>
                 (\<forall>(a, b) \<in> set (aristas_camino p). peso_arista g a b \<noteq> None) \<and>
                 peso_camino g p = dv)) \<and>
           (ori = des \<longrightarrow> map_of g ori \<noteq> None \<longrightarrow>
              estatus_de r = RESOLVED \<and> r_distancia r = Some (Finita 0) \<and>
              r_camino r = Some [ori])" ..
  show ?thesis
  proof (rule that[of r])
    show "procesar_envio g (i, ori, des) = Some (Inr r)" using r by (rule conjunct1)
    then show "projr (the (procesar_envio g (i, ori, des))) = r" by simp
    show "r_id r = i" "r_origen r = ori" "r_destino r = des" using r by simp_all
    show "estatus_de r = RESOLVED \<Longrightarrow>
              (\<exists>dv p. r_distancia r = Some (Finita dv) \<and> r_camino r = Some p \<and> p \<noteq> [] \<and>
                 hd p = ori \<and> last p = des \<and>
                 (\<forall>(a, b) \<in> set (aristas_camino p). peso_arista g a b \<noteq> None) \<and>
                 peso_camino g p = dv)" using r by simp
    show "ori = des \<Longrightarrow> map_of g ori \<noteq> None \<Longrightarrow>
              estatus_de r = RESOLVED \<and> r_distancia r = Some (Finita 0) \<and>
              r_camino r = Some [ori]" using r by simp
  qed
qed

text \<open>
  Claim C7.  Whatever the graph, when the batch returns it returns one result for each
  shipment, in the order of the shipments, each carrying the identifier, the origin and
  the destination of its shipment; and on a graph of the data model it does return: an
  unknown origin or a destination out of reach gives a result and the loop goes on.
\<close>

theorem procesar_envios_orden:
  "(\<forall>rs. procesar_envios g envios = Some (Inr rs) \<longrightarrow>
      length rs = length envios \<and>
      map (\<lambda>r. (r_id r, r_origen r, r_destino r)) rs = envios) \<and>
   (grafo_valido g \<longrightarrow> (\<exists>rs. procesar_envios g envios = Some (Inr rs)))"
proof (intro conjI allI impI)
  fix rs assume "procesar_envios g envios = Some (Inr rs)"
  from procesar_envios_parcial[OF this]
  have l: "list_all2 (\<lambda>e r. procesar_envio g e = Some (Inr r)) envios rs" .
  then show "length rs = length envios" by (simp add: list_all2_lengthD)
  from l show "map (\<lambda>r. (r_id r, r_origen r, r_destino r)) rs = envios"
  proof (induction rule: list_all2_induct)
    case Nil
    show ?case by simp
  next
    case (Cons e envios r rs)
    obtain i ori des where e: "e = (i, ori, des)" by (cases e)
    from procesar_envio_campos[OF Cons.hyps(1)[unfolded e]] Cons.IH e show ?case by simp
  qed
next
  assume "grafo_valido g"
  from procesar_envios_valido[OF this, of envios]
  show "\<exists>rs. procesar_envios g envios = Some (Inr rs)" by blast
qed

theorem procesar_envios_orden_witness:
  "grafo_valido (construir_grafo rutas_ejemplo) \<and>
   (\<exists>rs. procesar_envios (construir_grafo rutas_ejemplo) envios_ejemplo = Some (Inr rs) \<and>
      length rs = length envios_ejemplo \<and>
      map (\<lambda>r. (r_id r, r_origen r, r_destino r)) rs = envios_ejemplo)"
proof -
  note c = procesar_envios_orden[of "construir_grafo rutas_ejemplo" envios_ejemplo]
  from c[THEN conjunct2, rule_format, OF grafo_ejemplo_valido] obtain rs where
    rs: "procesar_envios (construir_grafo rutas_ejemplo) envios_ejemplo = Some (Inr rs)" ..
  from c[THEN conjunct1, rule_format, OF rs] rs
  have "\<exists>rs. procesar_envios (construir_grafo rutas_ejemplo) envios_ejemplo = Some (Inr rs) \<and>
      length rs = length envios_ejemplo \<and>
      map (\<lambda>r. (r_id r, r_origen r, r_destino r)) rs = envios_ejemplo" by blast
  then show ?thesis by (intro conjI grafo_ejemplo_valido)
qed

text \<open>
  Claim C5.  No result of the batch is resolved with an empty path: whatever the graph, a
  returned result that carries a distance carries a path with at least one node; and on
  a graph of the data model the batch does return.
\<close>

theorem resuelto_camino_no_vacio:
  "(\<forall>rs. procesar_envios g envios = Some (Inr rs) \<longrightarrow>
      (\<forall>r \<in> set rs. estatus_de r = RESOLVED \<longrightarrow> (\<exists>p. r_camino r = Some p \<and> p \<noteq> []))) \<and>
   (grafo_valido g \<longrightarrow> (\<exists>rs. procesar_envios g envios = Some (Inr rs)))"
proof (intro conjI allI impI ballI)
  fix rs r assume rs: "procesar_envios g envios = Some (Inr rs)" and r: "r \<in> set rs"
    and res: "estatus_de r = RESOLVED"
  from procesar_envios_parcial[OF rs]
  have l: "list_all2 (\<lambda>e r. procesar_envio g e = Some (Inr r)) envios rs" .
  from r obtain k where k: "k < length rs" "rs ! k = r" by (auto simp: in_set_conv_nth)
  from l k have pe: "procesar_envio g (envios ! k) = Some (Inr r)"
    by (auto simp: list_all2_conv_all_nth)
  obtain i ori des where e: "envios ! k = (i, ori, des)" by (cases "envios ! k")
  from procesar_envio_parcial[OF pe[unfolded e] res]
  show "\<exists>p. r_camino r = Some p \<and> p \<noteq> []" .
next
  assume "grafo_valido g"
  from procesar_envios_valido[OF this, of envios]
  show "\<exists>rs. procesar_envios g envios = Some (Inr rs)" by blast
qed

theorem resuelto_camino_no_vacio_witness:
  "grafo_valido (construir_grafo rutas_ejemplo) \<and>
   (\<exists>rs. procesar_envios (construir_grafo rutas_ejemplo) envios_ejemplo = Some (Inr rs) \<and>
      (\<forall>r \<in> set rs. estatus_de r = RESOLVED \<longrightarrow> (\<exists>p. r_camino r = Some p \<and> p \<noteq> [])))"
proof -
  note c = resuelto_camino_no_vacio[of "construir_grafo rutas_ejemplo" envios_ejemplo]
  from c[THEN conjunct2, rule_format, OF grafo_ejemplo_valido] obtain rs where
    rs: "procesar_envios (construir_grafo rutas_ejemplo) envios_ejemplo = Some (Inr rs)" ..
  from c[THEN conjunct1, THEN spec, THEN mp, OF rs] rs
  have "\<exists>rs. procesar_envios (construir_grafo rutas_ejemplo) envios_ejemplo = Some (Inr rs) \<and>
      (\<forall>r \<in> set rs. estatus_de r = RESOLVED \<longrightarrow> (\<exists>p. r_camino r = Some p \<and> p \<noteq> []))" by blast
  then show ?thesis by (intro conjI grafo_ejemplo_valido)
qed

text \<open>
  Claim C1.  On the graph built from edges without negative weights, the batch returns,
  and every resolved result has a path that starts at the origin of its shipment, ends at
  its destination, has one edge less than it has nodes, follows edges of the graph, and
  whose edge weights add up to exactly the distance returned.
\<close>

theorem camino_resuelto_valido:
  assumes "pesos_no_negativos rutas"
  shows "\<exists>rs. procesar_envios (construir_grafo rutas) envios = Some (Inr rs) \<and>
     length rs = length envios \<and>
     (\<forall>k < length envios. estatus_de (rs ! k) = RESOLVED \<longrightarrow>
        (\<exists>dv p. r_distancia (rs ! k) = Some (Finita dv) \<and> r_camino (rs ! k) = Some p \<and>
           p \<noteq> [] \<and> hd p = fst (snd (envios ! k)) \<and> last p = snd (snd (envios ! k)) \<and>
           length (aristas_camino p) = length p - 1 \<and>
           (\<forall>(a, b) \<in> set (aristas_camino p). peso_arista (construir_grafo rutas) a b \<noteq> None) \<and>
           peso_camino (construir_grafo rutas) p = dv))"
proof -
  let ?g = "construir_grafo rutas"
  let ?h = "\<lambda>e. projr (the (procesar_envio ?g e))"
  have val: "grafo_valido ?g" using assms by (rule construir_grafo_valido)
  have "\<forall>k < length envios. estatus_de (map ?h envios ! k) = RESOLVED \<longrightarrow>
        (\<exists>dv p. r_distancia (map ?h envios ! k) = Some (Finita dv) \<and>
           r_camino (map ?h envios ! k) = Some p \<and>
           p \<noteq> [] \<and> hd p = fst (snd (envios ! k)) \<and> last p = snd (snd (envios ! k)) \<and>
           length (aristas_camino p) = length p - 1 \<and>
           (\<forall>(a, b) \<in> set (aristas_camino p). peso_arista ?g a b \<noteq> None) \<and>
           peso_camino ?g p = dv)"
  proof (intro allI impI)
    fix k assume k: "k < length envios" and res: "estatus_de (map ?h envios ! k) = RESOLVED"
    obtain i ori des where e: "envios ! k = (i, ori, des)" by (cases "envios ! k")
    from k e have r: "map ?h envios ! k = ?h (i, ori, des)" by simp
    from resultado_envio[OF val, of i ori des] obtain r' where
      r': "?h (i, ori, des) = r'"
      "estatus_de r' = RESOLVED \<Longrightarrow>
              (\<exists>dv p. r_distancia r' = Some (Finita dv) \<and> r_camino r' = Some p \<and> p \<noteq> [] \<and>
                 hd p = ori \<and> last p = des \<and>
                 (\<forall>(a, b) \<in> set (aristas_camino p). peso_arista ?g a b \<noteq> None) \<and>
                 peso_camino ?g p = dv)" by metis
    from r r'(1) res have "estatus_de r' = RESOLVED" by simp
    from r'(2)[OF this] obtain dv p where c: "r_distancia r' = Some (Finita dv)"
      "r_camino r' = Some p" "p \<noteq> []" "hd p = ori" "last p = des"
      "\<forall>(a, b) \<in> set (aristas_camino p). peso_arista ?g a b \<noteq> None"
      "peso_camino ?g p = dv" by blast
    have l: "length (aristas_camino p) = length p - 1" by (rule longitud_aristas)
    show "\<exists>dv p. r_distancia (map ?h envios ! k) = Some (Finita dv) \<and>
           r_camino (map ?h envios ! k) = Some p \<and>
           p \<noteq> [] \<and> hd p = fst (snd (envios ! k)) \<and> last p = snd (snd (envios ! k)) \<and>
           length (aristas_camino p) = length p - 1 \<and>
           (\<forall>(a, b) \<in> set (aristas_camino p). peso_arista ?g a b \<noteq> None) \<and>
           peso_camino ?g p = dv"
      unfolding r r'(1) e using c l by (intro exI[of _ dv] exI[of _ p]) simp
  qed
  with procesar_envios_valido[OF val, of envios] show ?thesis by simp
qed

theorem camino_resuelto_valido_witness:
  "pesos_no_negativos rutas_ejemplo \<and>
   (\<exists>rs. procesar_envios (construir_grafo rutas_ejemplo) envios_ejemplo = Some (Inr rs) \<and>
     length rs = length envios_ejemplo \<and>
     (\<forall>k < length envios_ejemplo. estatus_de (rs ! k) = RESOLVED \<longrightarrow>
        (\<exists>dv p. r_distancia (rs ! k) = Some (Finita dv) \<and> r_camino (rs ! k) = Some p \<and>
           p \<noteq> [] \<and> hd p = fst (snd (envios_ejemplo ! k)) \<and>
           last p = snd (snd (envios_ejemplo ! k)) \<and>
           length (aristas_camino p) = length p - 1 \<and>
           (\<forall>(a, b) \<in> set (aristas_camino p).
              peso_arista (construir_grafo rutas_ejemplo) a b \<noteq> None) \<and>
           peso_camino (construir_grafo rutas_ejemplo) p = dv)))"
proof -
  have h: "pesos_no_negativos rutas_ejemplo"
    by (simp add: pesos_no_negativos_def rutas_ejemplo_def)
  show ?thesis by (intro conjI h camino_resuelto_valido[OF h])
qed

text \<open>
  Claim C9.  On a graph of the data model, a shipment whose origin is a key of the graph
  and whose destination is the origin is resolved with distance 0 and the path made of
  that single node.
\<close>

theorem envio_mismo_nodo:
  assumes val: "grafo_valido g" and k: "k < length envios"
    and e: "envios ! k = (i, ori, ori)" and ori: "ori \<in> fst ` set g"
  shows "\<exists>rs. procesar_envios g envios = Some (Inr rs) \<and> estatus_de (rs ! k) = RESOLVED \<and>
           r_distancia (rs ! k) = Some (Finita 0) \<and> r_camino (rs ! k) = Some [ori]"
proof -
  let ?h = "\<lambda>e. projr (the (procesar_envio g e))"
  from clave_map_of[OF ori] have m: "map_of g ori \<noteq> None" by auto
  from k e have r: "map ?h envios ! k = ?h (i, ori, ori)" by simp
  from resultado_envio[OF val, of i ori ori] obtain r' where
      r': "?h (i, ori, ori) = r'"
      "ori = ori \<Longrightarrow> map_of g ori \<noteq> None \<Longrightarrow>
              estatus_de r' = RESOLVED \<and> r_distancia r' = Some (Finita 0) \<and>
              r_camino r' = Some [ori]" by metis
  from r'(2)[OF refl m] r r'(1)
  have "estatus_de (map ?h envios ! k) = RESOLVED \<and>
           r_distancia (map ?h envios ! k) = Some (Finita 0) \<and>
           r_camino (map ?h envios ! k) = Some [ori]" by simp
  with procesar_envios_valido[OF val, of envios] show ?thesis by simp
qed

theorem envio_mismo_nodo_witness:
  "grafo_valido (construir_grafo rutas_ejemplo) \<and> (0 :: nat) < length [(7 :: int, ''C'', ''C'')] \<and>
   [(7 :: int, ''C'', ''C'')] ! 0 = (7, ''C'', ''C'') \<and>
   ''C'' \<in> fst ` set (construir_grafo rutas_ejemplo) \<and>
   (\<exists>rs. procesar_envios (construir_grafo rutas_ejemplo) [(7, ''C'', ''C'')] = Some (Inr rs) \<and>
      estatus_de (rs ! 0) = RESOLVED \<and> r_distancia (rs ! 0) = Some (Finita 0) \<and>
      r_camino (rs ! 0) = Some [''C''])"
proof -
  have k: "(0 :: nat) < length [(7 :: int, ''C'', ''C'')]" by simp
  have e: "[(7 :: int, ''C'', ''C'')] ! 0 = (7, ''C'', ''C'')" by simp
  have c: "''C'' \<in> fst ` set (construir_grafo rutas_ejemplo)" by code_simp
  show ?thesis
    by (intro conjI grafo_ejemplo_valido k e c envio_mismo_nodo[OF grafo_ejemplo_valido k e c])
qed

end
